theory Spec2Isabelle
  imports Main "HOL-Library.Multiset" "HOL-Library.Char_ord" "HOL-Library.List_Lexorder"
begin

text \<open>
  A model of the control plane of \<open>redisctl\<close>, the command-line administrator of a
  Redis cluster: the connection manager, the three slot migration flows (reshard,
  rebalance, del-node), the rebalance planner, the slot assignment of create, the
  convergence wait of add-node, the readers of the cluster view and the checks of
  del-node.  The functions are translated from the Go sources and keep their names;
  the properties of the specification are stated and proved, or refuted on a concrete
  input, in the second half.
\<close>

section \<open>Go string helpers used by the cluster tool\<close>

text \<open>
  Go strings are byte strings; \<open>string\<close> (a list of 8-bit characters) models them
  byte for byte.  The helpers below follow the functions of Go's \<open>strings\<close> and
  \<open>strconv\<close> packages that the sources call.  White space is the ASCII white space
  of \<open>strings.Fields\<close> and \<open>strings.TrimSpace\<close>; the two non-ASCII Latin-1 spaces
  that Go also trims never occur in the cluster's text protocol and are left out.
\<close>

definition isSpace :: "char \<Rightarrow> bool" where
  "isSpace c = (c \<in> set [CHR 0x09, CHR 0x0A, CHR 0x0B, CHR 0x0C, CHR 0x0D, CHR 0x20])"

text \<open>\<open>strings.Split(s, sep)\<close> for a one-byte separator: always at least one piece.\<close>

fun Split :: "string \<Rightarrow> char \<Rightarrow> string list" where
  "Split [] sep = [[]]"
| "Split (c # cs) sep =
     (if c = sep then [] # Split cs sep
      else (case Split cs sep of
              [] \<Rightarrow> [[c]]
            | p # ps \<Rightarrow> (c # p) # ps))"

text \<open>\<open>strings.Fields\<close>: the maximal runs of non-space bytes, in order.\<close>

fun FieldsFrom :: "string \<Rightarrow> string \<Rightarrow> string list" where
  "FieldsFrom cur [] = (if cur = [] then [] else [cur])"
| "FieldsFrom cur (c # cs) =
     (if isSpace c then (if cur = [] then FieldsFrom [] cs else cur # FieldsFrom [] cs)
      else FieldsFrom (cur @ [c]) cs)"

definition Fields :: "string \<Rightarrow> string list" where
  "Fields s = FieldsFrom [] s"

definition TrimSpace :: "string \<Rightarrow> string" where
  "TrimSpace s = rev (dropWhile isSpace (rev (dropWhile isSpace s)))"

definition HasPrefix :: "string \<Rightarrow> string \<Rightarrow> bool" where
  "HasPrefix s p = (take (length p) s = p)"

fun Contains :: "string \<Rightarrow> string \<Rightarrow> bool" where
  "Contains [] sub = (sub = [])"
| "Contains (c # cs) sub = (HasPrefix (c # cs) sub \<or> Contains cs sub)"

fun Join :: "string list \<Rightarrow> string \<Rightarrow> string" where
  "Join [] sep = []"
| "Join [x] sep = x"
| "Join (x # y # ys) sep = x @ sep @ Join (y # ys) sep"

text \<open>
  \<open>strconv.Atoi\<close>: an optional sign, then one or more decimal digits, and a number
  that fits Go's 64-bit \<open>int\<close>; anything else is an error (\<open>None\<close>).
\<close>

definition isDigit :: "char \<Rightarrow> bool" where
  "isDigit c = (c \<in> set ''0123456789'')"

definition digitVal :: "char \<Rightarrow> int" where
  "digitVal c = int (of_char c) - 48"

definition digitsVal :: "string \<Rightarrow> int" where
  "digitsVal ds = foldl (\<lambda>acc c. 10 * acc + digitVal c) 0 ds"

definition parseDigits :: "string \<Rightarrow> int option" where
  "parseDigits ds = (if ds \<noteq> [] \<and> list_all isDigit ds then Some (digitsVal ds) else None)"

definition inIntRange :: "int \<Rightarrow> bool" where
  "inIntRange v = (- (2 ^ 63) \<le> v \<and> v < 2 ^ 63)"

definition Atoi :: "string \<Rightarrow> int option" where
  "Atoi s =
     (let r = (case s of
                 [] \<Rightarrow> None
               | c # cs \<Rightarrow>
                   if c = CHR ''-'' then map_option uminus (parseDigits cs)
                   else if c = CHR ''+'' then parseDigits cs
                   else parseDigits (c # cs))
      in case r of None \<Rightarrow> None | Some v \<Rightarrow> if inIntRange v then Some v else None)"

section \<open>The MIGRATE command and its inline authentication\<close>

text \<open>A command argument is a string or an integer (Go's \<open>[]interface{}\<close>).\<close>

datatype arg = S string | I int

text \<open>\<open>buildMigrateCommand\<close> (del-node).\<close>

definition buildMigrateCommand :: "string \<Rightarrow> string \<Rightarrow> string \<Rightarrow> string \<Rightarrow> string \<Rightarrow> arg list" where
  "buildMigrateCommand targetHost targetPort key user password =
     (let baseCmd = [S ''MIGRATE'', S targetHost, S targetPort, S key, I 0, I 60000]
      in if user \<noteq> [] then baseCmd @ [S ''AUTH2'', S user, S password]
         else if password \<noteq> [] then baseCmd @ [S ''AUTH'', S password]
         else baseCmd)"

text \<open>\<open>buildMigrateCommandForReshard\<close> (reshard).\<close>

definition buildMigrateCommandForReshard :: "string \<Rightarrow> string \<Rightarrow> string \<Rightarrow> string \<Rightarrow> string \<Rightarrow> arg list" where
  "buildMigrateCommandForReshard targetHost targetPort key user password =
     (let baseCmd = [S ''MIGRATE'', S targetHost, S targetPort, S key, I 0, I 60000]
      in if user \<noteq> [] then baseCmd @ [S ''AUTH2'', S user, S password]
         else if password \<noteq> [] then baseCmd @ [S ''AUTH'', S password]
         else baseCmd)"

text \<open>
  The command that \<open>migrateKeysBatch\<close> (rebalance) builds for one key of its batch.
  The credentials are those of the global configuration (\<open>config.GetAuth()\<close>).
\<close>

definition migrateKeysBatchCmd :: "string \<Rightarrow> string \<Rightarrow> string \<Rightarrow> string \<Rightarrow> string \<Rightarrow> arg list" where
  "migrateKeysBatchCmd targetHost targetPort key user password =
     (if user \<noteq> []
      then [S ''MIGRATE'', S targetHost, S targetPort, S key, I 0, I 60000, S ''AUTH2'', S user, S password]
      else [S ''MIGRATE'', S targetHost, S targetPort, S key, I 0, I 60000, S ''AUTH'', S password])"


section \<open>Remote commands, replies and the event log\<close>

text \<open>
  The tool talks to the cluster through clients: the client of the source primary, the
  client of the target primary, the cluster client, and clients opened for one address.
  Every remote call is logged together with what came back.  What a server answers is
  outside the program, so the answers are an arbitrary environment: the reply to the
  \<open>n\<close>-th remote call of a run, read at the type the issuing call expects.
\<close>

datatype client_ref = Source | Target | Cluster | Node string

datatype reply = Err string | Ok | Keys "string list" | Text string

datatype event = Call client_ref "arg list" reply | Sleep nat

record env =
  errOf :: "nat \<Rightarrow> string option"
  keysOf :: "nat \<Rightarrow> string + string list"
  textOf :: "nat \<Rightarrow> string + string"

text \<open>\<open>client.Do(ctx, args...).Err()\<close>: the error of the reply, if any.\<close>

definition doErr :: "env \<Rightarrow> client_ref \<Rightarrow> arg list \<Rightarrow> nat \<Rightarrow> string option \<times> event list \<times> nat" where
  "doErr e c args n =
     (case errOf e n of
        None \<Rightarrow> (None, [Call c args Ok], Suc n)
      | Some msg \<Rightarrow> (Some msg, [Call c args (Err msg)], Suc n))"

text \<open>\<open>client.ClusterGetKeysInSlot(ctx, slot, count)\<close>.\<close>

definition ClusterGetKeysInSlot :: "env \<Rightarrow> client_ref \<Rightarrow> int \<Rightarrow> int \<Rightarrow> nat \<Rightarrow> (string + string list) \<times> event list \<times> nat" where
  "ClusterGetKeysInSlot e c slot cnt n =
     (let args = [S ''CLUSTER'', S ''GETKEYSINSLOT'', I slot, I cnt]
      in case keysOf e n of
           Inl msg \<Rightarrow> (Inl msg, [Call c args (Err msg)], Suc n)
         | Inr ks \<Rightarrow> (Inr ks, [Call c args (Keys ks)], Suc n))"

text \<open>\<open>client.ClusterNodes(ctx)\<close>.\<close>

definition ClusterNodes :: "env \<Rightarrow> client_ref \<Rightarrow> nat \<Rightarrow> (string + string) \<times> event list \<times> nat" where
  "ClusterNodes e c n =
     (case textOf e n of
        Inl msg \<Rightarrow> (Inl msg, [Call c [S ''CLUSTER'', S ''NODES''] (Err msg)], Suc n)
      | Inr txt \<Rightarrow> (Inr txt, [Call c [S ''CLUSTER'', S ''NODES''] (Text txt)], Suc n))"

definition setslot :: "int \<Rightarrow> string \<Rightarrow> string \<Rightarrow> arg list" where
  "setslot slot sub nodeID = [S ''CLUSTER'', S ''SETSLOT'', I slot, S sub, S nodeID]"

text \<open>
  How one slot's migration ended: completed, stopped by an error, or still fetching keys
  when the bound on fetch rounds of the model was reached (the source loops for as long
  as the source primary keeps reporting keys).
\<close>

datatype mig_error =
    ErrMigrating string
  | ErrImporting string
  | ErrGetKeys string
  | ErrMigrateKey string string
  | ErrPipeline string
  | ErrNodeSource string
  | ErrNodeTarget string
  | ErrPropagate string

datatype result = Done | Failed mig_error | Pending

section \<open>Slot migration in reshard\<close>

text \<open>The inner loop of \<open>migrateSlot\<close>: one MIGRATE per key, stop at the first error.\<close>

fun migrateEachKey :: "env \<Rightarrow> string \<Rightarrow> string \<Rightarrow> string \<Rightarrow> string \<Rightarrow> string list \<Rightarrow> nat \<Rightarrow> mig_error option \<times> event list \<times> nat" where
  "migrateEachKey e targetHost targetPort user password [] n = (None, [], n)"
| "migrateEachKey e targetHost targetPort user password (key # keys) n =
     (case doErr e Source (buildMigrateCommandForReshard targetHost targetPort key user password) n of
        (Some msg, t1, n1) \<Rightarrow> (Some (ErrMigrateKey key msg), t1, n1)
      | (None, t1, n1) \<Rightarrow>
          (case migrateEachKey e targetHost targetPort user password keys n1 of
             (r, t2, n2) \<Rightarrow> (r, t1 @ t2, n2)))"

text \<open>The \<open>for { ... }\<close> loop of \<open>migrateSlot\<close>, with a bound on its rounds.\<close>

fun migrateSlotKeys :: "nat \<Rightarrow> env \<Rightarrow> int \<Rightarrow> string \<Rightarrow> string \<Rightarrow> int \<Rightarrow> string \<Rightarrow> string \<Rightarrow> nat \<Rightarrow> result \<times> event list \<times> nat" where
  "migrateSlotKeys 0 e slot targetHost targetPort pipelineSize user password n = (Pending, [], n)"
| "migrateSlotKeys (Suc fuel) e slot targetHost targetPort pipelineSize user password n =
     (case ClusterGetKeysInSlot e Source slot pipelineSize n of
        (Inl msg, t1, n1) \<Rightarrow> (Failed (ErrGetKeys msg), t1, n1)
      | (Inr keys, t1, n1) \<Rightarrow>
          if keys = [] then (Done, t1, n1)
          else (case migrateEachKey e targetHost targetPort user password keys n1 of
                  (Some err, t2, n2) \<Rightarrow> (Failed err, t1 @ t2, n2)
                | (None, t2, n2) \<Rightarrow>
                    (case migrateSlotKeys fuel e slot targetHost targetPort pipelineSize user password n2 of
                       (r, t3, n3) \<Rightarrow> (r, t1 @ t2 @ t3, n3))))"

text \<open>The two closing \<open>SETSLOT ... NODE\<close> commands, on the source and then on the target.\<close>

definition assignSlotToTarget :: "env \<Rightarrow> int \<Rightarrow> string \<Rightarrow> nat \<Rightarrow> result \<times> event list \<times> nat" where
  "assignSlotToTarget e slot targetNodeID n =
     (case doErr e Source (setslot slot ''NODE'' targetNodeID) n of
        (Some msg, t1, n1) \<Rightarrow> (Failed (ErrNodeSource msg), t1, n1)
      | (None, t1, n1) \<Rightarrow>
          (case doErr e Target (setslot slot ''NODE'' targetNodeID) n1 of
             (Some msg, t2, n2) \<Rightarrow> (Failed (ErrNodeTarget msg), t1 @ t2, n2)
           | (None, t2, n2) \<Rightarrow> (Done, t1 @ t2, n2)))"

text \<open>\<open>migrateSlot\<close>; \<open>user\<close> and \<open>password\<close> are what \<open>config.GetAuth()\<close> returns.\<close>

definition migrateSlot :: "nat \<Rightarrow> env \<Rightarrow> int \<Rightarrow> string \<Rightarrow> string \<Rightarrow> int \<Rightarrow> string \<Rightarrow> string \<Rightarrow> string \<Rightarrow> string \<Rightarrow> nat \<Rightarrow> result \<times> event list \<times> nat" where
  "migrateSlot fuel e slot targetHost targetPort pipelineSize sourceNodeID targetNodeID user password n =
     (case doErr e Source (setslot slot ''MIGRATING'' targetNodeID) n of
        (Some msg, t1, n1) \<Rightarrow> (Failed (ErrMigrating msg), t1, n1)
      | (None, t1, n1) \<Rightarrow>
          (case doErr e Target (setslot slot ''IMPORTING'' sourceNodeID) n1 of
             (Some msg, t2, n2) \<Rightarrow> (Failed (ErrImporting msg), t1 @ t2, n2)
           | (None, t2, n2) \<Rightarrow>
               (case migrateSlotKeys fuel e slot targetHost targetPort pipelineSize user password n2 of
                  (Done, t3, n3) \<Rightarrow>
                    (case assignSlotToTarget e slot targetNodeID n3 of
                       (r, t4, n4) \<Rightarrow> (r, t1 @ t2 @ t3 @ t4, n4))
                | (r, t3, n3) \<Rightarrow> (r, t1 @ t2 @ t3, n3))))"

section \<open>Slot migration in rebalance\<close>

text \<open>
  \<open>migrateKeysBatch\<close>: the MIGRATE commands of a batch are queued on a pipeline and
  executed together; \<open>Exec\<close> returns the first error among the replies.
\<close>

fun pipelineExec :: "env \<Rightarrow> arg list list \<Rightarrow> nat \<Rightarrow> string option list \<times> event list \<times> nat" where
  "pipelineExec e [] n = ([], [], n)"
| "pipelineExec e (cmd # cmds) n =
     (case doErr e Source cmd n of
        (r, t1, n1) \<Rightarrow>
          (case pipelineExec e cmds n1 of
             (rs, t2, n2) \<Rightarrow> (r # rs, t1 @ t2, n2)))"

fun firstError :: "string option list \<Rightarrow> string option" where
  "firstError [] = None"
| "firstError (None # rs) = firstError rs"
| "firstError (Some msg # rs) = Some msg"

fun checkResults :: "string list \<Rightarrow> string option list \<Rightarrow> mig_error option" where
  "checkResults (key # keys) (None # rs) = checkResults keys rs"
| "checkResults (key # keys) (Some msg # rs) = Some (ErrMigrateKey key msg)"
| "checkResults keys rs = None"

definition migrateKeysBatch :: "env \<Rightarrow> string list \<Rightarrow> string \<Rightarrow> string \<Rightarrow> string \<Rightarrow> string \<Rightarrow> nat \<Rightarrow> mig_error option \<times> event list \<times> nat" where
  "migrateKeysBatch e keys targetHost targetPort user password n =
     (if keys = [] then (None, [], n)
      else (case pipelineExec e (map (\<lambda>key. migrateKeysBatchCmd targetHost targetPort key user password) keys) n of
              (results, t, n1) \<Rightarrow>
                (case firstError results of
                   Some msg \<Rightarrow> (Some (ErrPipeline msg), t, n1)
                 | None \<Rightarrow> (checkResults keys results, t, n1))))"

text \<open>Step 3 of the slot loop of \<open>reshardSlots\<close>, with a bound on its rounds.\<close>

fun reshardSlotKeys :: "nat \<Rightarrow> env \<Rightarrow> int \<Rightarrow> string \<Rightarrow> string \<Rightarrow> int \<Rightarrow> string \<Rightarrow> string \<Rightarrow> nat \<Rightarrow> result \<times> event list \<times> nat" where
  "reshardSlotKeys 0 e slot targetHost targetPort pipeline user password n = (Pending, [], n)"
| "reshardSlotKeys (Suc fuel) e slot targetHost targetPort pipeline user password n =
     (case ClusterGetKeysInSlot e Source slot pipeline n of
        (Inl msg, t1, n1) \<Rightarrow> (Failed (ErrGetKeys msg), t1, n1)
      | (Inr keys, t1, n1) \<Rightarrow>
          if keys = [] then (Done, t1, n1)
          else (case migrateKeysBatch e keys targetHost targetPort user password n1 of
                  (Some err, t2, n2) \<Rightarrow> (Failed err, t1 @ t2, n2)
                | (None, t2, n2) \<Rightarrow>
                    (case reshardSlotKeys fuel e slot targetHost targetPort pipeline user password n2 of
                       (r, t3, n3) \<Rightarrow> (r, t1 @ t2 @ t3, n3))))"

text \<open>
  The body of the slot loop of \<open>reshardSlots\<close> (steps 1 to 4 for one slot); the loop
  runs it for each slot of a plan item in turn and stops at the first failure.  The
  clients of the two primaries have been opened before the loop.
\<close>

definition reshardSlotsStep :: "nat \<Rightarrow> env \<Rightarrow> string \<Rightarrow> string \<Rightarrow> int \<Rightarrow> string \<Rightarrow> string \<Rightarrow> int \<Rightarrow> string \<Rightarrow> string \<Rightarrow> nat \<Rightarrow> result \<times> event list \<times> nat" where
  "reshardSlotsStep fuel e fromID toID slot targetHost targetPort pipeline user password n =
     (case doErr e Source (setslot slot ''MIGRATING'' toID) n of
        (Some msg, t1, n1) \<Rightarrow> (Failed (ErrMigrating msg), t1, n1)
      | (None, t1, n1) \<Rightarrow>
          (case doErr e Target (setslot slot ''IMPORTING'' fromID) n1 of
             (Some msg, t2, n2) \<Rightarrow> (Failed (ErrImporting msg), t1 @ t2, n2)
           | (None, t2, n2) \<Rightarrow>
               (case reshardSlotKeys fuel e slot targetHost targetPort pipeline user password n2 of
                  (Done, t3, n3) \<Rightarrow>
                    (case assignSlotToTarget e slot toID n3 of
                       (r, t4, n4) \<Rightarrow> (r, t1 @ t2 @ t3 @ t4, n4))
                | (r, t3, n3) \<Rightarrow> (r, t1 @ t2 @ t3, n3))))"

fun reshardSlots :: "nat \<Rightarrow> env \<Rightarrow> string \<Rightarrow> string \<Rightarrow> int list \<Rightarrow> string \<Rightarrow> string \<Rightarrow> int \<Rightarrow> string \<Rightarrow> string \<Rightarrow> nat \<Rightarrow> result \<times> event list \<times> nat" where
  "reshardSlots fuel e fromID toID [] targetHost targetPort pipeline user password n = (Done, [], n)"
| "reshardSlots fuel e fromID toID (slot # slots) targetHost targetPort pipeline user password n =
     (case reshardSlotsStep fuel e fromID toID slot targetHost targetPort pipeline user password n of
        (Done, t1, n1) \<Rightarrow>
          (case reshardSlots fuel e fromID toID slots targetHost targetPort pipeline user password n1 of
             (r, t2, n2) \<Rightarrow> (r, t1 @ t2, n2))
      | (r, t1, n1) \<Rightarrow> (r, t1, n1))"

section \<open>Slot migration in del-node\<close>

text \<open>
  The retry loop of \<open>migrateSlotsKeysWithBatching\<close> for one key: \<open>k\<close> attempts are
  left, \<open>retry\<close> is the loop counter and \<open>migrateErr\<close> the last error.
\<close>

fun migrateRetry :: "nat \<Rightarrow> nat \<Rightarrow> string option \<Rightarrow> env \<Rightarrow> arg list \<Rightarrow> nat \<Rightarrow> string option \<times> event list \<times> nat" where
  "migrateRetry 0 retry migrateErr e migrateCmd n = (migrateErr, [], n)"
| "migrateRetry (Suc k) retry migrateErr e migrateCmd n =
     (case doErr e Source migrateCmd n of
        (None, t1, n1) \<Rightarrow> (None, t1, n1)
      | (Some msg, t1, n1) \<Rightarrow>
          if Contains msg ''timeout'' \<or> Contains msg ''connection''
          then (case migrateRetry k (retry + 1) (Some msg) e migrateCmd n1 of
                  (r, t2, n2) \<Rightarrow> (r, t1 @ [Sleep ((retry + 1) * 100)] @ t2, n2))
          else (Some msg, t1, n1))"

definition maxRetries :: nat where
  "maxRetries = 3"

fun migrateBatchKeys :: "env \<Rightarrow> string \<Rightarrow> string \<Rightarrow> string \<Rightarrow> string \<Rightarrow> string list \<Rightarrow> nat \<Rightarrow> mig_error option \<times> event list \<times> nat" where
  "migrateBatchKeys e targetHost targetPort user password [] n = (None, [], n)"
| "migrateBatchKeys e targetHost targetPort user password (key # keys) n =
     (case migrateRetry maxRetries 0 None e (buildMigrateCommand targetHost targetPort key user password) n of
        (Some msg, t1, n1) \<Rightarrow> (Some (ErrMigrateKey key msg), t1, n1)
      | (None, t1, n1) \<Rightarrow>
          (case migrateBatchKeys e targetHost targetPort user password keys n1 of
             (r, t2, n2) \<Rightarrow> (r, t1 @ t2, n2)))"

text \<open>\<open>migrateSlotsKeysWithBatching\<close>, with a bound on the rounds of its loop.\<close>

fun migrateSlotsKeysWithBatching :: "nat \<Rightarrow> env \<Rightarrow> int \<Rightarrow> string \<Rightarrow> string \<Rightarrow> string \<Rightarrow> string \<Rightarrow> int \<Rightarrow> nat \<Rightarrow> result \<times> event list \<times> nat" where
  "migrateSlotsKeysWithBatching 0 e slot targetHost targetPort user password batchSize n = (Pending, [], n)"
| "migrateSlotsKeysWithBatching (Suc fuel) e slot targetHost targetPort user password batchSize n =
     (case ClusterGetKeysInSlot e Source slot batchSize n of
        (Inl msg, t1, n1) \<Rightarrow> (Failed (ErrGetKeys msg), t1, n1)
      | (Inr keys, t1, n1) \<Rightarrow>
          if keys = [] then (Done, t1, n1)
          else (case migrateBatchKeys e targetHost targetPort user password keys n1 of
                  (Some err, t2, n2) \<Rightarrow> (Failed err, t1 @ t2, n2)
                | (None, t2, n2) \<Rightarrow>
                    (case migrateSlotsKeysWithBatching fuel e slot targetHost targetPort user password batchSize n2 of
                       (r, t3, n3) \<Rightarrow> (r, t1 @ t2 @ [Sleep 10] @ t3, n3))))"

text \<open>
  \<open>updateAllNodesSlotOwnershipForDelNode\<close>: ask the cluster client for the view, then
  send \<open>SETSLOT slot NODE target\<close> to the address of every line, counting successes.
\<close>

definition stripBusPort :: "string \<Rightarrow> string" where
  "stripBusPort addr =
     (if CHR ''@'' \<in> set addr
      then (case Split addr CHR ''@'' of [] \<Rightarrow> addr | p # ps \<Rightarrow> p)
      else addr)"

fun publishToLines :: "env \<Rightarrow> int \<Rightarrow> string \<Rightarrow> string list \<Rightarrow> nat \<Rightarrow> (nat \<times> string list) \<times> event list \<times> nat" where
  "publishToLines e slot targetNodeID [] n = ((0, []), [], n)"
| "publishToLines e slot targetNodeID (line # lines) n =
     (if TrimSpace line = [] then publishToLines e slot targetNodeID lines n
      else if length (Fields line) < 2 then publishToLines e slot targetNodeID lines n
      else
        (let nodeAddr = stripBusPort (Fields line ! 1)
         in case doErr e (Node nodeAddr) (setslot slot ''NODE'' targetNodeID) n of
              (r, t1, n1) \<Rightarrow>
                (case publishToLines e slot targetNodeID lines n1 of
                   ((successCount, errors), t2, n2) \<Rightarrow>
                     (case r of
                        Some msg \<Rightarrow> ((successCount, (nodeAddr @ '': '' @ msg) # errors), t1 @ t2, n2)
                      | None \<Rightarrow> ((successCount + 1, errors), t1 @ t2, n2)))))"

definition updateAllNodesSlotOwnershipForDelNode :: "env \<Rightarrow> int \<Rightarrow> string \<Rightarrow> nat \<Rightarrow> string option \<times> event list \<times> nat" where
  "updateAllNodesSlotOwnershipForDelNode e slot targetNodeID n =
     (case ClusterNodes e Cluster n of
        (Inl msg, t1, n1) \<Rightarrow> (Some msg, t1, n1)
      | (Inr txt, t1, n1) \<Rightarrow>
          (case publishToLines e slot targetNodeID (Split txt CHR 0x0A) n1 of
             ((successCount, errors), t2, n2) \<Rightarrow>
               if successCount = 0 then (Some (Join errors '', ''), t1 @ t2, n2)
               else (None, t1 @ t2, n2)))"

text \<open>
  The body of the slot loop of \<open>moveSlots\<close> for the slot at index \<open>i\<close>; the loop runs
  it for each slot in turn and stops at the first failure.  The clients of the two
  primaries have been opened before the loop.
\<close>

definition moveSlotsStep :: "nat \<Rightarrow> env \<Rightarrow> nat \<Rightarrow> string \<Rightarrow> string \<Rightarrow> int \<Rightarrow> string \<Rightarrow> string \<Rightarrow> string \<Rightarrow> string \<Rightarrow> nat \<Rightarrow> result \<times> event list \<times> nat" where
  "moveSlotsStep fuel e i sourceNodeID targetNodeID slot targetHost targetPort user password n =
     (case doErr e Target (setslot slot ''IMPORTING'' sourceNodeID) n of
        (Some msg, t1, n1) \<Rightarrow> (Failed (ErrImporting msg), t1, n1)
      | (None, t1, n1) \<Rightarrow>
          (case doErr e Source (setslot slot ''MIGRATING'' targetNodeID) n1 of
             (Some msg, t2, n2) \<Rightarrow> (Failed (ErrMigrating msg), t1 @ t2, n2)
           | (None, t2, n2) \<Rightarrow>
               (case migrateSlotsKeysWithBatching fuel e slot targetHost targetPort user password 500 n2 of
                  (Done, t3, n3) \<Rightarrow>
                    (case assignSlotToTarget e slot targetNodeID n3 of
                       (Done, t4, n4) \<Rightarrow>
                         (case updateAllNodesSlotOwnershipForDelNode e slot targetNodeID n4 of
                            (Some msg, t5, n5) \<Rightarrow> (Failed (ErrPropagate msg), t1 @ t2 @ t3 @ t4 @ t5, n5)
                          | (None, t5, n5) \<Rightarrow>
                              (Done,
                               t1 @ t2 @ t3 @ t4 @ t5 @ [Sleep (if 0 < i \<and> i mod 50 = 0 then 200 else 50)],
                               n5))
                     | (r, t4, n4) \<Rightarrow> (r, t1 @ t2 @ t3 @ t4, n4))
                | (r, t3, n3) \<Rightarrow> (r, t1 @ t2 @ t3, n3))))"

fun moveSlotsLoop :: "nat \<Rightarrow> env \<Rightarrow> nat \<Rightarrow> string \<Rightarrow> string \<Rightarrow> int list \<Rightarrow> string \<Rightarrow> string \<Rightarrow> string \<Rightarrow> string \<Rightarrow> nat \<Rightarrow> result \<times> event list \<times> nat" where
  "moveSlotsLoop fuel e i sourceNodeID targetNodeID [] targetHost targetPort user password n = (Done, [], n)"
| "moveSlotsLoop fuel e i sourceNodeID targetNodeID (slot # slots) targetHost targetPort user password n =
     (case moveSlotsStep fuel e i sourceNodeID targetNodeID slot targetHost targetPort user password n of
        (Done, t1, n1) \<Rightarrow>
          (case moveSlotsLoop fuel e (i + 1) sourceNodeID targetNodeID slots targetHost targetPort user password n1 of
             (r, t2, n2) \<Rightarrow> (r, t1 @ t2, n2))
      | (r, t1, n1) \<Rightarrow> (r, t1, n1))"

section \<open>The per-slot state machine of the specification\<close>

text \<open>
  The steps of one slot's migration, read off the logged calls: which marker or
  assignment a \<open>SETSLOT\<close> sets and on which primary, a key fetch with the number of
  keys the source reported, a MIGRATE of one key, a pause, and the publication of the new
  owner to the other members.
\<close>

datatype step =
    MarkMigrating | MarkImporting | FetchKeys nat | FetchFailed | MigrateKey
  | AssignSource | AssignTarget | Pause | Publish | Other

definition setslotSub :: "arg list \<Rightarrow> string option" where
  "setslotSub args =
     (case args of
        [S a, S b, I slot, S sub, S nodeID] \<Rightarrow>
          if a = ''CLUSTER'' \<and> b = ''SETSLOT'' then Some sub else None
      | _ \<Rightarrow> None)"

definition isGetKeys :: "arg list \<Rightarrow> bool" where
  "isGetKeys args =
     (case args of
        [S a, S b, I slot, I cnt] \<Rightarrow> a = ''CLUSTER'' \<and> b = ''GETKEYSINSLOT''
      | _ \<Rightarrow> False)"

definition isMigrate :: "arg list \<Rightarrow> bool" where
  "isMigrate args = (case args of S a # rest \<Rightarrow> a = ''MIGRATE'' | _ \<Rightarrow> False)"

definition kind :: "event \<Rightarrow> step" where
  "kind ev =
     (case ev of
        Sleep ms \<Rightarrow> Pause
      | Call c args r \<Rightarrow>
          (case c of
             Source \<Rightarrow>
               if setslotSub args = Some ''MIGRATING'' then MarkMigrating
               else if setslotSub args = Some ''NODE'' then AssignSource
               else if isGetKeys args then (case r of Keys ks \<Rightarrow> FetchKeys (length ks) | _ \<Rightarrow> FetchFailed)
               else if isMigrate args then MigrateKey
               else Other
           | Target \<Rightarrow>
               if setslotSub args = Some ''IMPORTING'' then MarkImporting
               else if setslotSub args = Some ''NODE'' then AssignTarget
               else Other
           | Cluster \<Rightarrow> Publish
           | Node a \<Rightarrow> Publish))"

text \<open>
  The state machine of the specification (initial state: the slot is stable on the
  source): markers, then key transfer until a fetch reports zero keys, then the
  assignment on the source and on the target, then publication.  The order of the two
  markers is a parameter.
\<close>

datatype phase = StableA | MigratingSet | ImportingSet | Transferring | Drained | AssignedOnSource | StableB

datatype marker_order = MigratingFirst | ImportingFirst

definition next_phase :: "marker_order \<Rightarrow> phase \<Rightarrow> step \<Rightarrow> phase option" where
  "next_phase ord p s =
     (case p of
        StableA \<Rightarrow>
          if ord = MigratingFirst \<and> s = MarkMigrating then Some MigratingSet
          else if ord = ImportingFirst \<and> s = MarkImporting then Some ImportingSet
          else None
      | MigratingSet \<Rightarrow> if s = MarkImporting then Some Transferring else None
      | ImportingSet \<Rightarrow> if s = MarkMigrating then Some Transferring else None
      | Transferring \<Rightarrow>
          (case s of
             FetchKeys k \<Rightarrow> Some (if k = 0 then Drained else Transferring)
           | FetchFailed \<Rightarrow> Some Transferring
           | MigrateKey \<Rightarrow> Some Transferring
           | Pause \<Rightarrow> Some Transferring
           | _ \<Rightarrow> None)
      | Drained \<Rightarrow> if s = AssignSource then Some AssignedOnSource else None
      | AssignedOnSource \<Rightarrow> if s = AssignTarget then Some StableB else None
      | StableB \<Rightarrow> (case s of Publish \<Rightarrow> Some StableB | Pause \<Rightarrow> Some StableB | _ \<Rightarrow> None))"

fun run_phases :: "marker_order \<Rightarrow> phase \<Rightarrow> step list \<Rightarrow> phase option" where
  "run_phases ord p [] = Some p"
| "run_phases ord p (s # ss) =
     (case next_phase ord p s of None \<Rightarrow> None | Some q \<Rightarrow> run_phases ord q ss)"

text \<open>
  The state machine of a batch of slots: once the target owns a slot, the markers of the
  next slot start the machine again.
\<close>

definition next_batch_phase :: "marker_order \<Rightarrow> phase \<Rightarrow> step \<Rightarrow> phase option" where
  "next_batch_phase ord p s =
     (case next_phase ord p s of
        Some q \<Rightarrow> Some q
      | None \<Rightarrow> if p = StableB then next_phase ord StableA s else None)"

fun run_batch :: "marker_order \<Rightarrow> phase \<Rightarrow> step list \<Rightarrow> phase option" where
  "run_batch ord p [] = Some p"
| "run_batch ord p (s # ss) =
     (case next_batch_phase ord p s of None \<Rightarrow> None | Some q \<Rightarrow> run_batch ord q ss)"

section \<open>The connection manager\<close>

text \<open>
  A client is the object \<open>redis.NewClient\<close> returns; \<open>cl_id\<close> is its identity (the
  pointer of the source), the other fields are the options it was created with.
\<close>

record client =
  cl_id :: nat
  cl_host :: string
  cl_port :: int
  cl_user :: string
  cl_password :: string

text \<open>
  \<open>ClusterManager\<close>.  The map \<open>nodes\<close> is a list of entries in the order in which
  \<open>range\<close> visits them (Go leaves that order open, so any order of the entries may
  occur).  The lock is not modelled: the calls of one run are taken one after another.
\<close>

record ClusterManager =
  cm_nodes :: "(string \<times> client) list"
  cm_user :: string
  cm_password :: string

text \<open>What the manager does to the network: clients created, probes sent, clients closed.\<close>

datatype conn_event = NewClient client | Ping client | CloseClient client

record net =
  opened :: nat
  clog :: "conn_event list"

datatype conn_error = BadAddressFormat string | BadPort string | PortOutOfRange int | PingFailed string string

definition NewClusterManager :: "string \<Rightarrow> string \<Rightarrow> ClusterManager" where
  "NewClusterManager user password = \<lparr> cm_nodes = [], cm_user = user, cm_password = password \<rparr>"

definition parseAddress :: "string \<Rightarrow> conn_error + (string \<times> int)" where
  "parseAddress address =
     (case Split address CHR '':'' of
        [h, p] \<Rightarrow>
          (let host = (if h = [] \<or> h = ''localhost'' then ''127.0.0.1'' else h)
           in case Atoi p of
                None \<Rightarrow> Inl (BadPort p)
              | Some port \<Rightarrow>
                  if port < 1 \<or> port > 65535 then Inl (PortOutOfRange port)
                  else Inr (host, port))
      | _ \<Rightarrow> Inl (BadAddressFormat address))"

text \<open>
  \<open>Connect\<close>.  \<open>pingErr\<close> is the outcome of the liveness probe of a new client.  The
  second lookup is the double check under the write lock.
\<close>

definition Connect :: "(client \<Rightarrow> string option) \<Rightarrow> ClusterManager \<Rightarrow> net \<Rightarrow> string \<Rightarrow> (conn_error + client) \<times> ClusterManager \<times> net" where
  "Connect pingErr cm nw address =
     (case map_of (cm_nodes cm) address of
        Some c \<Rightarrow> (Inr c, cm, nw)
      | None \<Rightarrow>
          (case map_of (cm_nodes cm) address of
             Some c \<Rightarrow> (Inr c, cm, nw)
           | None \<Rightarrow>
               (case parseAddress address of
                  Inl err \<Rightarrow> (Inl err, cm, nw)
                | Inr (host, port) \<Rightarrow>
                    (let c = \<lparr> cl_id = opened nw, cl_host = host, cl_port = port,
                               cl_user = cm_user cm, cl_password = cm_password cm \<rparr>;
                         nw1 = \<lparr> opened = opened nw + 1, clog = clog nw @ [NewClient c, Ping c] \<rparr>
                     in case pingErr c of
                          Some msg \<Rightarrow> (Inl (PingFailed address msg), cm, nw1)
                        | None \<Rightarrow> (Inr c, cm\<lparr> cm_nodes := cm_nodes cm @ [(address, c)] \<rparr>, nw1)))))"

text \<open>A run of \<open>Connect\<close> calls, one per address, whatever each returns.\<close>

fun ConnectAll :: "(client \<Rightarrow> string option) \<Rightarrow> ClusterManager \<Rightarrow> net \<Rightarrow> string list \<Rightarrow> ClusterManager \<times> net" where
  "ConnectAll pingErr cm nw [] = (cm, nw)"
| "ConnectAll pingErr cm nw (a # as) =
     (case Connect pingErr cm nw a of (r, cm1, nw1) \<Rightarrow> ConnectAll pingErr cm1 nw1 as)"

text \<open>
  \<open>Close\<close>: the loop over the map returns at the first client whose \<open>Close\<close> fails;
  the map is replaced by an empty one only after the loop.
\<close>

fun closeLoop :: "(client \<Rightarrow> string option) \<Rightarrow> (string \<times> client) list \<Rightarrow> net \<Rightarrow> string option \<times> net" where
  "closeLoop closeErr [] nw = (None, nw)"
| "closeLoop closeErr ((address, c) # rest) nw =
     (let nw1 = nw\<lparr> clog := clog nw @ [CloseClient c] \<rparr>
      in case closeErr c of
           Some msg \<Rightarrow> (Some msg, nw1)
         | None \<Rightarrow> closeLoop closeErr rest nw1)"

definition Close :: "(client \<Rightarrow> string option) \<Rightarrow> ClusterManager \<Rightarrow> net \<Rightarrow> string option \<times> ClusterManager \<times> net" where
  "Close closeErr cm nw =
     (case closeLoop closeErr (cm_nodes cm) nw of
        (Some msg, nw1) \<Rightarrow> (Some msg, cm, nw1)
      | (None, nw1) \<Rightarrow> (None, cm\<lparr> cm_nodes := [] \<rparr>, nw1))"

section \<open>The rebalance planner\<close>

record MasterNode =
  mn_ID :: string
  mn_Addr :: string
  mn_Slots :: "int list"

record RebalancePlan =
  rp_From :: string
  rp_To :: string
  rp_Slots :: "int list"
  rp_SlotCount :: int

definition idealSlots :: "MasterNode list \<Rightarrow> int" where
  "idealSlots masters = 16384 div int (length masters)"

text \<open>
  The integer part of \<open>calculateImbalance\<close>: the loop that finds the largest absolute
  deviation of a slot count from the ideal count (the function then turns it into a
  percentage in floating point).
\<close>

fun maxDeviationLoop :: "int \<Rightarrow> MasterNode list \<Rightarrow> int \<Rightarrow> int" where
  "maxDeviationLoop ideal [] maxDeviation = maxDeviation"
| "maxDeviationLoop ideal (master # masters) maxDeviation =
     (let d = int (length (mn_Slots master)) - ideal;
          deviation = (if d < 0 then - d else d)
      in maxDeviationLoop ideal masters (if deviation > maxDeviation then deviation else maxDeviation))"

definition maxDeviation :: "MasterNode list \<Rightarrow> int" where
  "maxDeviation masters = (if masters = [] then 0 else maxDeviationLoop (idealSlots masters) masters 0)"

text \<open>
  \<open>sort.Slice\<close> with the comparison "more slots first".  The sort is not stable, so the
  order among masters with equal counts is not fixed by the source; the planner takes
  the sorting function as a parameter, and \<open>sortBySlotCount\<close> is one such function.
\<close>

definition sortBySlotCount :: "MasterNode list \<Rightarrow> MasterNode list" where
  "sortBySlotCount masters = rev (sort_key (\<lambda>m. length (mn_Slots m)) masters)"

text \<open>The indices of the masters above (donors) and below (receivers) the ideal count.\<close>

definition donorsOf :: "int \<Rightarrow> MasterNode list \<Rightarrow> nat list" where
  "donorsOf ideal masters = filter (\<lambda>i. int (length (mn_Slots (masters ! i))) > ideal) [0..<length masters]"

definition receiversOf :: "int \<Rightarrow> MasterNode list \<Rightarrow> nat list" where
  "receiversOf ideal masters = filter (\<lambda>i. int (length (mn_Slots (masters ! i))) < ideal) [0..<length masters]"

text \<open>The number of slots one pairing moves: the smaller of excess and deficit.\<close>

definition slotsToMoveOf :: "int \<Rightarrow> MasterNode \<Rightarrow> MasterNode \<Rightarrow> int" where
  "slotsToMoveOf ideal donor receiver =
     (let excess = int (length (mn_Slots donor)) - ideal;
          deficit = ideal - int (length (mn_Slots receiver))
      in if deficit < excess then deficit else excess)"

text \<open>The slots to transfer: taken from the end of the donor's list, last slot first.\<close>

definition slotsToTransferOf :: "MasterNode \<Rightarrow> int \<Rightarrow> int list" where
  "slotsToTransferOf donor slotsToMove = take (nat slotsToMove) (rev (mn_Slots donor))"

text \<open>
  The update of the working copy: the donor's list is cut, the receiver's list is
  extended.  \<open>donor\<close> and \<open>receiver\<close> are pointers into the same slice, so the
  receiver is read after the donor has been written.
\<close>

definition moveBetween :: "nat \<Rightarrow> nat \<Rightarrow> int list \<Rightarrow> MasterNode list \<Rightarrow> MasterNode list" where
  "moveBetween d r slotsToTransfer masters =
     (let donor = masters ! d;
          masters1 = masters[d := donor\<lparr> mn_Slots := take (length (mn_Slots donor) - length slotsToTransfer) (mn_Slots donor) \<rparr>];
          receiver = masters1 ! r
      in masters1[r := receiver\<lparr> mn_Slots := mn_Slots receiver @ slotsToTransfer \<rparr>])"

text \<open>
  The pairing loop of \<open>generateRebalancePlan\<close>.  It returns the plan and the working
  copy of the masters; \<open>None\<close> is the run-time panic of an index outside the slice.
\<close>

function planLoop :: "int \<Rightarrow> nat list \<Rightarrow> nat list \<Rightarrow> nat \<Rightarrow> nat \<Rightarrow> MasterNode list \<Rightarrow> RebalancePlan list
    \<Rightarrow> (RebalancePlan list \<times> MasterNode list) option" where
  "planLoop ideal donors receivers donorIdx receiverIdx masters plan =
     (if donorIdx < length donors \<and> receiverIdx < length receivers then
        (let d = donors ! donorIdx; r = receivers ! receiverIdx
         in if d < length masters \<and> r < length masters then
              (let slotsToMove = slotsToMoveOf ideal (masters ! d) (masters ! r)
               in if slotsToMove \<le> 0 then Some (plan, masters)
                  else
                    (let slotsToTransfer = slotsToTransferOf (masters ! d) slotsToMove;
                         item = \<lparr> rp_From = mn_ID (masters ! d), rp_To = mn_ID (masters ! r),
                                  rp_Slots = slotsToTransfer, rp_SlotCount = int (length slotsToTransfer) \<rparr>;
                         masters2 = moveBetween d r slotsToTransfer masters
                     in planLoop ideal donors receivers
                          (if int (length (mn_Slots (masters2 ! d))) \<le> ideal then donorIdx + 1 else donorIdx)
                          (if int (length (mn_Slots (masters2 ! r))) \<ge> ideal then receiverIdx + 1 else receiverIdx)
                          masters2 (plan @ [item])))
            else None)
      else Some (plan, masters))"
  by pat_completeness auto

termination planLoop
proof (relation "measure (\<lambda>(ideal, donors, receivers, donorIdx, receiverIdx, masters, plan).
            (length donors - donorIdx) + (length receivers - receiverIdx))")
  show "wf (measure (\<lambda>(ideal, donors, receivers, donorIdx, receiverIdx, masters, plan).
            (length donors - donorIdx) + (length receivers - receiverIdx)))"
    by simp
next
  fix ideal :: int and donors receivers :: "nat list" and donorIdx receiverIdx :: nat
    and masters :: "MasterNode list" and plan :: "RebalancePlan list"
    and d r :: nat and slotsToMove :: int and slotsToTransfer :: "int list"
    and item :: RebalancePlan and masters2 :: "MasterNode list"
  assume idx: "donorIdx < length donors \<and> receiverIdx < length receivers"
    and d: "d = donors ! donorIdx" and r: "r = receivers ! receiverIdx"
    and rng: "d < length masters \<and> r < length masters"
    and k: "slotsToMove = slotsToMoveOf ideal (masters ! d) (masters ! r)"
    and pos: "\<not> slotsToMove \<le> 0"
    and xs: "slotsToTransfer = slotsToTransferOf (masters ! d) slotsToMove"
    and m2: "masters2 = moveBetween d r slotsToTransfer masters"
  let ?ld = "int (length (mn_Slots (masters ! d)))"
  let ?lr = "int (length (mn_Slots (masters ! r)))"
  from k pos have ex: "0 < ?ld - ideal" and de: "0 < ideal - ?lr"
    by (auto simp: slotsToMoveOf_def Let_def split: if_splits)
  then have ne: "d \<noteq> r" by auto
  have kv: "slotsToMove = (if ideal - ?lr < ?ld - ideal then ideal - ?lr else ?ld - ideal)"
    using k by (simp add: slotsToMoveOf_def Let_def)
  have len: "length slotsToTransfer = nat slotsToMove"
    using ex de kv xs by (auto simp: slotsToTransferOf_def)
  have progress: "int (length (mn_Slots (masters2 ! d))) \<le> ideal \<or> ideal \<le> int (length (mn_Slots (masters2 ! r)))"
    using rng ne len ex de kv m2 by (auto simp: moveBetween_def Let_def)
  show "((ideal, donors, receivers,
          if int (length (mn_Slots (masters2 ! d))) \<le> ideal then donorIdx + 1 else donorIdx,
          if ideal \<le> int (length (mn_Slots (masters2 ! r))) then receiverIdx + 1 else receiverIdx,
          masters2, plan @ [item]),
         ideal, donors, receivers, donorIdx, receiverIdx, masters, plan)
        \<in> measure (\<lambda>(ideal, donors, receivers, donorIdx, receiverIdx, masters, plan).
            (length donors - donorIdx) + (length receivers - receiverIdx))"
    using idx progress by auto
qed

declare planLoop.simps [simp del]

text \<open>
  \<open>generateRebalancePlan\<close>.  The deep copy of the masters is what the model works
  on; \<open>srt\<close> is the sort of the copy.
\<close>

definition generateRebalancePlan :: "(MasterNode list \<Rightarrow> MasterNode list) \<Rightarrow> MasterNode list \<Rightarrow> RebalancePlan list option" where
  "generateRebalancePlan srt originalMasters =
     (if originalMasters = [] then Some []
      else
        (let ideal = idealSlots originalMasters;
             masters = srt originalMasters
         in map_option fst
              (planLoop ideal (donorsOf ideal masters) (receiversOf ideal masters) 0 0 masters [])))"

text \<open>
  Applying a plan to a distribution, as executing it does: each item takes its slots
  away from the master named \<open>From\<close> and gives them to the master named \<open>To\<close>.
\<close>

definition applyItem :: "RebalancePlan \<Rightarrow> MasterNode list \<Rightarrow> MasterNode list" where
  "applyItem item masters =
     map (\<lambda>m. if mn_ID m = rp_From item then m\<lparr> mn_Slots := fold remove1 (rp_Slots item) (mn_Slots m) \<rparr>
              else if mn_ID m = rp_To item then m\<lparr> mn_Slots := mn_Slots m @ rp_Slots item \<rparr>
              else m) masters"

definition applyPlan :: "RebalancePlan list \<Rightarrow> MasterNode list \<Rightarrow> MasterNode list" where
  "applyPlan plan masters = fold applyItem plan masters"

definition totalMoved :: "RebalancePlan list \<Rightarrow> int" where
  "totalMoved plan = (\<Sum>item\<leftarrow>plan. int (length (rp_Slots item)))"

definition totalExcess :: "MasterNode list \<Rightarrow> int" where
  "totalExcess masters = (\<Sum>m\<leftarrow>masters. max 0 (int (length (mn_Slots m)) - idealSlots masters))"

section \<open>Slot assignment in create\<close>

text \<open>
  Step 4 of \<open>runCreateCluster\<close>.  \<open>addSlotsErr\<close> is the outcome of the
  \<open>CLUSTER ADDSLOTS\<close> sent to a master.  The loop returns the commands it has sent
  (master and slot arguments) and, if one failed, the master and the error; the source
  then rolls back and returns.
\<close>

fun assignSlotsLoop :: "(string \<Rightarrow> int list \<Rightarrow> string option) \<Rightarrow> int \<Rightarrow> int \<Rightarrow> nat \<Rightarrow> int \<Rightarrow> string list
    \<Rightarrow> (string \<times> int list) list \<times> (string \<times> string) option" where
  "assignSlotsLoop addSlotsErr slotsPerMaster remainder i currentSlot [] = ([], None)"
| "assignSlotsLoop addSlotsErr slotsPerMaster remainder i currentSlot (masterNode # masters) =
     (let slots = (if int i < remainder then slotsPerMaster + 1 else slotsPerMaster);
          endSlot = currentSlot + slots - 1;
          slotArgs = [currentSlot..endSlot]
      in case addSlotsErr masterNode slotArgs of
           Some msg \<Rightarrow> ([(masterNode, slotArgs)], Some (masterNode, msg))
         | None \<Rightarrow>
             (case assignSlotsLoop addSlotsErr slotsPerMaster remainder (i + 1) (currentSlot + slots) masters of
                (cmds, r) \<Rightarrow> ((masterNode, slotArgs) # cmds, r)))"

text \<open>With no master the division by \<open>len(masters)\<close> panics: \<open>None\<close>.\<close>

definition assignSlots :: "(string \<Rightarrow> int list \<Rightarrow> string option) \<Rightarrow> string list
    \<Rightarrow> ((string \<times> int list) list \<times> (string \<times> string) option) option" where
  "assignSlots addSlotsErr masters =
     (if masters = [] then None
      else Some (assignSlotsLoop addSlotsErr
                   (16384 div int (length masters)) (16384 mod int (length masters)) 0 0 masters))"

text \<open>The size and the first slot of the range of primary \<open>i\<close> among \<open>m\<close>, as the specification words them.\<close>

definition rangeSize :: "nat \<Rightarrow> nat \<Rightarrow> int" where
  "rangeSize m i = 16384 div int m + (if i < 16384 mod m then 1 else 0)"

definition rangeStart :: "nat \<Rightarrow> nat \<Rightarrow> int" where
  "rangeStart m i = (\<Sum>j<i. rangeSize m j)"

section \<open>The convergence wait of add-node\<close>

record SlotRange =
  sr_Start :: int
  sr_End :: int

record ClusterNode =
  cn_ID :: string
  cn_Address :: string
  cn_Flags :: "string list"
  cn_Master :: string
  cn_Slots :: "SlotRange list"
  cn_LinkState :: string
  cn_PingSent :: int
  cn_PongRecv :: int
  cn_ConfigEpoch :: int

text \<open>\<open>createClusterSignature\<close>.\<close>

definition createClusterSignature :: "ClusterNode list \<Rightarrow> string" where
  "createClusterSignature clusterNodes =
     Join (map (\<lambda>node. cn_ID node @ '':'' @ Join (cn_Flags node) '','') clusterNodes) ''|''"

fun stringSliceContains :: "string list \<Rightarrow> string \<Rightarrow> bool" where
  "stringSliceContains [] item = False"
| "stringSliceContains (s # slice) item = (if s = item then True else stringSliceContains slice item)"

text \<open>
  The loop over the nodes of one poll of \<open>waitForClusterJoin\<close>; \<open>getNodes\<close> is
  \<open>cm.GetClusterNodes\<close>.  The result is the flag \<open>consistent\<close>.
\<close>

fun viewsConsistent :: "(string \<Rightarrow> string + ClusterNode list) \<Rightarrow> nat \<Rightarrow> string \<Rightarrow> ClusterNode list \<Rightarrow> bool" where
  "viewsConsistent getNodes i firstSignature [] = True"
| "viewsConsistent getNodes i firstSignature (node # nodes) =
     (if stringSliceContains (cn_Flags node) ''fail'' \<or> stringSliceContains (cn_Flags node) ''disconnected''
      then viewsConsistent getNodes (i + 1) firstSignature nodes
      else if cn_Address node = [] then viewsConsistent getNodes (i + 1) firstSignature nodes
      else
        (case getNodes (cn_Address node) of
           Inl err \<Rightarrow> False
         | Inr nodeClusterNodes \<Rightarrow>
             (let signature = createClusterSignature nodeClusterNodes
              in if i = 0 then viewsConsistent getNodes (i + 1) signature nodes
                 else if firstSignature \<noteq> signature then False
                 else viewsConsistent getNodes (i + 1) firstSignature nodes)))"

text \<open>
  \<open>waitForClusterJoin\<close>: \<open>polls\<close> is the number of polls that fit before the
  deadline, \<open>getNodesAt k\<close> what the nodes answer during poll \<open>k\<close>.  \<open>True\<close> is the
  return without error, \<open>False\<close> the timeout.
\<close>

fun waitForClusterJoin :: "nat \<Rightarrow> (nat \<Rightarrow> string \<Rightarrow> string + ClusterNode list) \<Rightarrow> string \<Rightarrow> nat \<Rightarrow> bool" where
  "waitForClusterJoin 0 getNodesAt existingNode k = False"
| "waitForClusterJoin (Suc polls) getNodesAt existingNode k =
     (case getNodesAt k existingNode of
        Inl err \<Rightarrow> waitForClusterJoin polls getNodesAt existingNode (k + 1)
      | Inr clusterNodes \<Rightarrow>
          if viewsConsistent (getNodesAt k) 0 [] clusterNodes then True
          else waitForClusterJoin polls getNodesAt existingNode (k + 1))"

text \<open>
  The canonical signature as the specification words it: the sorted list of
  \<open>node_id:flags\<close> entries, with the flags \<open>myself\<close> and \<open>handshake\<close> stripped.
\<close>

definition specSignature :: "ClusterNode list \<Rightarrow> string list" where
  "specSignature clusterNodes =
     sort (map (\<lambda>node. cn_ID node @ '':'' @
                  Join (filter (\<lambda>f. f \<noteq> ''myself'' \<and> f \<noteq> ''handshake'') (cn_Flags node)) '','')
             clusterNodes)"

section \<open>Reading the cluster view\<close>

record NodeFlags =
  nf_IsMaster :: bool
  nf_IsReplica :: bool
  nf_IsFail :: bool
  nf_IsHandshake :: bool
  nf_IsNoAddr :: bool
  nf_IsNoFlags :: bool

definition noFlags :: NodeFlags where
  "noFlags = \<lparr> nf_IsMaster = False, nf_IsReplica = False, nf_IsFail = False,
               nf_IsHandshake = False, nf_IsNoAddr = False, nf_IsNoFlags = False \<rparr>"

definition setFlag :: "string \<Rightarrow> NodeFlags \<Rightarrow> NodeFlags" where
  "setFlag flag nodeFlags =
     (let f = TrimSpace flag
      in if f = ''master'' then nodeFlags\<lparr> nf_IsMaster := True \<rparr>
         else if f = ''slave'' then nodeFlags\<lparr> nf_IsReplica := True \<rparr>
         else if f = ''fail'' then nodeFlags\<lparr> nf_IsFail := True \<rparr>
         else if f = ''handshake'' then nodeFlags\<lparr> nf_IsHandshake := True \<rparr>
         else if f = ''noaddr'' then nodeFlags\<lparr> nf_IsNoAddr := True \<rparr>
         else nodeFlags)"

text \<open>\<open>parseNodeFlagsSlice\<close>.\<close>

definition parseNodeFlagsSlice :: "string list \<Rightarrow> NodeFlags" where
  "parseNodeFlagsSlice flags =
     (if flags = [] then noFlags\<lparr> nf_IsNoFlags := True \<rparr> else fold setFlag flags noFlags)"




text \<open>
  The slot tokens of a line as rebalance and del-node read them: every range
  \<open>start-end\<close> and every single number, without a bound.
\<close>

fun plainSlots :: "string list \<Rightarrow> int list" where
  "plainSlots [] = []"
| "plainSlots (slotRange # rest) =
     (if CHR ''-'' \<in> set slotRange then
        (case Split slotRange CHR ''-'' of
           [a, b] \<Rightarrow>
             (case (Atoi a, Atoi b) of
                (Some start, Some end) \<Rightarrow> [start..end] @ plainSlots rest
              | _ \<Rightarrow> plainSlots rest)
         | _ \<Rightarrow> plainSlots rest)
      else
        (case Atoi slotRange of
           Some slot \<Rightarrow> slot # plainSlots rest
         | None \<Rightarrow> plainSlots rest))"




section \<open>The checks of del-node before a node is removed\<close>

record NodeInfo =
  ni_ID :: string
  ni_Addr :: string
  ni_IsMaster :: bool
  ni_IsReplica :: bool
  ni_MasterID :: string
  ni_Slots :: "int list"
  ni_Replicas :: "string list"

datatype del_error =
    ConnectivityFailed string
  | NodeInfoFailed string
  | NodeNotFound string
  | OtherMastersFailed string
  | NoOtherMaster
  | TooFewMasters int

fun findNodeInfo :: "string \<Rightarrow> string list \<Rightarrow> NodeInfo option" where
  "findNodeInfo nodeID [] = None"
| "findNodeInfo nodeID (line # lines) =
     (if TrimSpace line = [] then findNodeInfo nodeID lines
      else
        (let parts = Fields line
         in if length parts < 8 then findNodeInfo nodeID lines
            else if parts ! 0 = nodeID then
              (let nodeFlags = parseNodeFlagsSlice (Split (parts ! 2) CHR '','')
               in Some \<lparr> ni_ID = parts ! 0, ni_Addr = parts ! 1,
                         ni_IsMaster = nf_IsMaster nodeFlags, ni_IsReplica = nf_IsReplica nodeFlags,
                         ni_MasterID = (if nf_IsReplica nodeFlags \<and> parts ! 3 \<noteq> ''-'' then parts ! 3 else []),
                         ni_Slots = plainSlots (drop 8 parts), ni_Replicas = [] \<rparr>)
            else findNodeInfo nodeID lines))"

text \<open>\<open>getDelNodeInfo\<close>; the first argument is the reply to \<open>CLUSTER NODES\<close>.\<close>

definition getDelNodeInfo :: "string + string \<Rightarrow> string \<Rightarrow> del_error + NodeInfo" where
  "getDelNodeInfo nodesReply nodeID =
     (case nodesReply of
        Inl err \<Rightarrow> Inl (NodeInfoFailed err)
      | Inr txt \<Rightarrow>
          (case findNodeInfo nodeID (Split txt CHR 0x0A) of
             None \<Rightarrow> Inl (NodeNotFound nodeID)
           | Some nodeInfo \<Rightarrow> Inr nodeInfo))"

fun otherMastersOfLines :: "string \<Rightarrow> string list \<Rightarrow> string list" where
  "otherMastersOfLines excludeNodeID [] = []"
| "otherMastersOfLines excludeNodeID (line # lines) =
     (if TrimSpace line = [] then otherMastersOfLines excludeNodeID lines
      else
        (let parts = Fields line
         in if length parts < 3 then otherMastersOfLines excludeNodeID lines
            else if parts ! 0 \<noteq> excludeNodeID
                    \<and> nf_IsMaster (parseNodeFlagsSlice (Split (parts ! 2) CHR '',''))
            then parts ! 0 # otherMastersOfLines excludeNodeID lines
            else otherMastersOfLines excludeNodeID lines))"

text \<open>\<open>getOtherMasters\<close>.\<close>

definition getOtherMasters :: "string + string \<Rightarrow> string \<Rightarrow> string + string list" where
  "getOtherMasters nodesReply excludeNodeID =
     (case nodesReply of
        Inl err \<Rightarrow> Inl err
      | Inr txt \<Rightarrow> Inr (otherMastersOfLines excludeNodeID (Split txt CHR 0x0A)))"

text \<open>
  \<open>runDelNode\<close> up to its first change of the cluster.  \<open>pingErr\<close> is the outcome of
  the connectivity check, \<open>view1\<close> and \<open>view2\<close> are the replies to the two
  \<open>CLUSTER NODES\<close> queries (node lookup, other masters).  The result is the error the
  command returns, or what it does next: drain the slots of the node
  (\<open>reshardBeforeRemoval\<close>), or go on to forget the node.  The probe of the node
  itself (\<open>validateNodeReachability\<close>) only prints a warning and has no part in
  the result.
\<close>

datatype del_next = DrainSlots NodeInfo | ForgetNode NodeInfo

definition runDelNode :: "string option \<Rightarrow> string + string \<Rightarrow> string + string \<Rightarrow> string \<Rightarrow> del_error + del_next" where
  "runDelNode pingErr view1 view2 nodeIDToRemove =
     (case pingErr of
        Some err \<Rightarrow> Inl (ConnectivityFailed err)
      | None \<Rightarrow>
          (case getDelNodeInfo view1 nodeIDToRemove of
             Inl err \<Rightarrow> Inl err
           | Inr nodeInfo \<Rightarrow>
               if ni_IsMaster nodeInfo \<and> length (ni_Slots nodeInfo) > 0 then
                 (case getOtherMasters view2 nodeIDToRemove of
                    Inl err \<Rightarrow> Inl (OtherMastersFailed err)
                  | Inr masters \<Rightarrow>
                      if length masters = 0 then Inl NoOtherMaster
                      else if length masters < 2 then Inl (TooFewMasters (int (length masters) + 1))
                      else Inr (DrainSlots nodeInfo))
               else if ni_IsMaster nodeInfo then
                 (case getOtherMasters view2 nodeIDToRemove of
                    Inl err \<Rightarrow> Inl (OtherMastersFailed err)
                  | Inr masters \<Rightarrow>
                      if length masters < 2 then Inl (TooFewMasters (int (length masters) + 1))
                      else Inr (ForgetNode nodeInfo))
               else Inr (ForgetNode nodeInfo)))"

section \<open>Concrete inputs\<close>

text \<open>A cluster of exactly three primaries that together own all slots, as \<open>CLUSTER NODES\<close> prints it.\<close>

definition exampleView3 :: string where
  "exampleView3 =
     ''n1 10.0.0.1:7001@17001 myself,master - 0 0 1 connected 0-5460'' @ [CHR 0x0A] @
     ''n2 10.0.0.2:7002@17002 master - 0 0 2 connected 5461-10922'' @ [CHR 0x0A] @
     ''n3 10.0.0.3:7003@17003 master - 0 0 3 connected 10923-16383'' @ [CHR 0x0A]"

text \<open>A manager that holds two clients, the first of which fails to close.\<close>

definition closeFailsFirst :: "client \<Rightarrow> string option" where
  "closeFailsFirst c = (if cl_id c = 0 then Some ''use of closed network connection'' else None)"

definition twoClients :: "ClusterManager \<times> net" where
  "twoClients = ConnectAll (\<lambda>c. None) (NewClusterManager ''admin'' ''secret'') \<lparr> opened = 0, clog = [] \<rparr>
                  [''10.0.0.1:7001'', ''10.0.0.2:7002'']"

definition client0 :: client where
  "client0 = \<lparr> cl_id = 0, cl_host = ''10.0.0.1'', cl_port = 7001, cl_user = ''admin'', cl_password = ''secret'' \<rparr>"

definition client1 :: client where
  "client1 = \<lparr> cl_id = 1, cl_host = ''10.0.0.2'', cl_port = 7002, cl_user = ''admin'', cl_password = ''secret'' \<rparr>"

definition noCloseError :: "client \<Rightarrow> string option" where
  "noCloseError c = None"

text \<open>The first six arguments of every MIGRATE command.\<close>

definition baseCmd :: "string \<Rightarrow> string \<Rightarrow> string \<Rightarrow> arg list" where
  "baseCmd targetHost targetPort key = [S ''MIGRATE'', S targetHost, S targetPort, S key, I 0, I 60000]"

text \<open>
  A steady cluster of two primaries: both list the same two nodes with the same roles,
  and each marks its own line with \<open>myself\<close>.
\<close>

definition viewNode :: "string \<Rightarrow> string \<Rightarrow> string list \<Rightarrow> ClusterNode" where
  "viewNode nodeID address flags =
     \<lparr> cn_ID = nodeID, cn_Address = address, cn_Flags = flags, cn_Master = ''-'', cn_Slots = [],
       cn_LinkState = ''connected'', cn_PingSent = 0, cn_PongRecv = 0, cn_ConfigEpoch = 1 \<rparr>"

definition viewOfN1 :: "ClusterNode list" where
  "viewOfN1 = [viewNode ''n1'' ''10.0.0.1:7001'' [''myself'', ''master''],
               viewNode ''n2'' ''10.0.0.2:7002'' [''master'']]"

definition viewOfN2 :: "ClusterNode list" where
  "viewOfN2 = [viewNode ''n1'' ''10.0.0.1:7001'' [''master''],
               viewNode ''n2'' ''10.0.0.2:7002'' [''myself'', ''master'']]"

definition steadyCluster :: "nat \<Rightarrow> string \<Rightarrow> string + ClusterNode list" where
  "steadyCluster k address =
     (if address = ''10.0.0.1:7001'' then Inr viewOfN1
      else if address = ''10.0.0.2:7002'' then Inr viewOfN2
      else Inl ''connection refused'')"

text \<open>
  Two runs of one slot's migration.  In the first every command succeeds and the source
  reports one key, then none.  In the second the source keeps reporting one key and
  every command from the first MIGRATE on fails with a network timeout.
\<close>

definition oneKeyEnv :: env where
  "oneKeyEnv = \<lparr> errOf = (\<lambda>n. None),
                 keysOf = (\<lambda>n. if n = 2 then Inr [''key:0000000001''] else Inr []),
                 textOf = (\<lambda>n. Inr exampleView3) \<rparr>"

definition timeoutEnv :: env where
  "timeoutEnv = \<lparr> errOf = (\<lambda>n. if 3 \<le> n then Some ''i/o timeout'' else None),
                  keysOf = (\<lambda>n. Inr [''key:0000000001'']),
                  textOf = (\<lambda>n. Inr exampleView3) \<rparr>"







text \<open>The manager and the network after one and after two successful connects.\<close>

definition managerOne :: ClusterManager where
  "managerOne = \<lparr> cm_nodes = [(''10.0.0.1:7001'', client0)], cm_user = ''admin'', cm_password = ''secret'' \<rparr>"

definition managerTwo :: ClusterManager where
  "managerTwo = \<lparr> cm_nodes = [(''10.0.0.1:7001'', client0), (''10.0.0.2:7002'', client1)],
                  cm_user = ''admin'', cm_password = ''secret'' \<rparr>"

definition netOne :: net where
  "netOne = \<lparr> opened = 1, clog = [NewClient client0, Ping client0] \<rparr>"

definition netTwo :: net where
  "netTwo = \<lparr> opened = 2, clog = [NewClient client0, Ping client0, NewClient client1, Ping client1] \<rparr>"

text \<open>Three masters for create, and the ranges the slot loop sends them.\<close>

definition threeMasters :: "string list" where
  "threeMasters = [''10.0.0.1:7001'', ''10.0.0.2:7002'', ''10.0.0.3:7003'']"

definition threeRanges :: "(string \<times> int list) list" where
  "threeRanges = [(''10.0.0.1:7001'', [0..5461]), (''10.0.0.2:7002'', [5462..10922]),
                  (''10.0.0.3:7003'', [10923..16383])]"

text \<open>A distribution after a third primary without slots has joined two that share all slots.\<close>

definition unevenMasters :: "MasterNode list" where
  "unevenMasters =
     [\<lparr> mn_ID = ''n1'', mn_Addr = ''10.0.0.1:7001@17001'', mn_Slots = [0..8191] \<rparr>,
      \<lparr> mn_ID = ''n2'', mn_Addr = ''10.0.0.2:7002@17002'', mn_Slots = [8192..16383] \<rparr>,
      \<lparr> mn_ID = ''n3'', mn_Addr = ''10.0.0.3:7003@17003'', mn_Slots = [] \<rparr>]"

section \<open>Notions used in the proofs\<close>

text \<open>The number of slots the slot loop of create gives the master at index \<open>i\<close>.\<close>

definition sizeAt :: "int \<Rightarrow> int \<Rightarrow> nat \<Rightarrow> int" where
  "sizeAt slotsPerMaster remainder i = (if int i < remainder then slotsPerMaster + 1 else slotsPerMaster)"

text \<open>The slot count of a master, its distance from the ideal count, and its excess over it.\<close>

definition slotCount :: "MasterNode \<Rightarrow> int" where
  "slotCount m = int (length (mn_Slots m))"

definition deviation :: "int \<Rightarrow> MasterNode \<Rightarrow> int" where
  "deviation ideal m = \<bar>slotCount m - ideal\<bar>"

definition excess :: "int \<Rightarrow> MasterNode \<Rightarrow> int" where
  "excess ideal m = max 0 (slotCount m - ideal)"

text \<open>Two distributions list the same masters with the same slots, up to the order of the slots.\<close>

definition sameSlots :: "MasterNode list \<Rightarrow> MasterNode list \<Rightarrow> bool" where
  "sameSlots A B = (map mn_ID A = map mn_ID B \<and> map (\<lambda>m. mset (mn_Slots m)) A = map (\<lambda>m. mset (mn_Slots m)) B)"

text \<open>What applying one plan item does to one master.\<close>

definition applyItemTo :: "RebalancePlan \<Rightarrow> MasterNode \<Rightarrow> MasterNode" where
  "applyItemTo item m =
     (if mn_ID m = rp_From item then m\<lparr> mn_Slots := fold remove1 (rp_Slots item) (mn_Slots m) \<rparr>
      else if mn_ID m = rp_To item then m\<lparr> mn_Slots := mn_Slots m @ rp_Slots item \<rparr>
      else m)"

text \<open>The nodes that one poll of the convergence wait asks for their view.\<close>

definition polled :: "ClusterNode \<Rightarrow> bool" where
  "polled node = (\<not> stringSliceContains (cn_Flags node) ''fail''
                  \<and> \<not> stringSliceContains (cn_Flags node) ''disconnected''
                  \<and> cn_Address node \<noteq> [])"


section \<open>del-node with three primaries\<close>

lemma Atoi_10923: "Atoi ''10923'' = Some 10923"
  by code_simp

lemma Atoi_16383: "Atoi ''16383'' = Some 16383"
  by code_simp

lemma exampleView3_others: "getOtherMasters (Inr exampleView3) ''n3'' = Inr [''n1'', ''n2'']"
  by code_simp

lemma exampleView3_info:
  "getDelNodeInfo (Inr exampleView3) ''n3'' =
     Inr \<lparr> ni_ID = ''n3'', ni_Addr = ''10.0.0.3:7003@17003'', ni_IsMaster = True, ni_IsReplica = False,
           ni_MasterID = [], ni_Slots = [10923..16383], ni_Replicas = [] \<rparr>"
  by (simp add: getDelNodeInfo_def exampleView3_def Fields_def isSpace_def TrimSpace_def
      parseNodeFlagsSlice_def setFlag_def noFlags_def Atoi_10923 Atoi_16383 del: upto_rec_numeral)

text \<open>For a primary, the checks reject exactly when fewer than two other primaries are listed.\<close>

lemma runDelNode_guard:
  assumes "getDelNodeInfo view1 nodeID = Inr nodeInfo" and "ni_IsMaster nodeInfo"
    and "getOtherMasters view2 nodeID = Inr masters"
  shows "(\<exists>err. runDelNode None view1 view2 nodeID = Inl err) = (length masters < 2)"
  using assms by (auto simp: runDelNode_def)

text \<open>
  Claim C2 says that del-node on a primary fails before any slot motion when the cluster
  has exactly three primaries.  On the view of such a cluster the checks of
  \<open>runDelNode\<close> find two other primaries, pass, and hand the node to
  \<open>reshardBeforeRemoval\<close>: the slots of the third primary are drained and two
  primaries remain.
\<close>

theorem delnode_three_primaries_drains:
  "runDelNode None (Inr exampleView3) (Inr exampleView3) ''n3'' =
     Inr (DrainSlots \<lparr> ni_ID = ''n3'', ni_Addr = ''10.0.0.3:7003@17003'', ni_IsMaster = True,
                       ni_IsReplica = False, ni_MasterID = [], ni_Slots = [10923..16383],
                       ni_Replicas = [] \<rparr>)"
  by (simp add: runDelNode_def exampleView3_info exampleView3_others del: upto_rec_numeral)

section \<open>Closing the connection manager\<close>

lemma twoClients_eq:
  "twoClients = (\<lparr> cm_nodes = [(''10.0.0.1:7001'', client0), (''10.0.0.2:7002'', client1)],
                   cm_user = ''admin'', cm_password = ''secret'' \<rparr>,
                 \<lparr> opened = 2, clog = [NewClient client0, Ping client0, NewClient client1, Ping client1] \<rparr>)"
  by code_simp

text \<open>When no client fails to close, every client is closed and the map is emptied.\<close>

lemma closeLoop_without_errors:
  "\<forall>c\<in>snd ` set entries. closeErr c = None \<Longrightarrow>
     closeLoop closeErr entries nw = (None, nw\<lparr> clog := clog nw @ map (\<lambda>(a, c). CloseClient c) entries \<rparr>)"
  by (induction entries arbitrary: nw) (auto simp: Let_def)

lemma Close_without_errors:
  "\<forall>c\<in>snd ` set (cm_nodes cm). closeErr c = None \<Longrightarrow>
     Close closeErr cm nw =
       (None, cm\<lparr> cm_nodes := [] \<rparr>, nw\<lparr> clog := clog nw @ map (\<lambda>(a, c). CloseClient c) (cm_nodes cm) \<rparr>)"
  by (simp add: Close_def closeLoop_without_errors)

text \<open>
  Claim C9 says that \<open>Close\<close> closes every client and leaves the map empty, also when
  closing a client returns an error.  With two clients in the map and an error from the
  first, \<open>Close\<close> returns that error at once: the second client is never closed and
  both entries stay in the map.
\<close>

theorem close_stops_at_first_error:
  "Close closeFailsFirst (fst twoClients) (snd twoClients) =
     (Some ''use of closed network connection'',
      \<lparr> cm_nodes = [(''10.0.0.1:7001'', client0), (''10.0.0.2:7002'', client1)],
        cm_user = ''admin'', cm_password = ''secret'' \<rparr>,
      \<lparr> opened = 2,
        clog = [NewClient client0, Ping client0, NewClient client1, Ping client1, CloseClient client0] \<rparr>)"
  by (simp add: twoClients_eq Close_def closeFailsFirst_def client0_def)

section \<open>Authentication arguments of MIGRATE\<close>




section \<open>The convergence wait on a steady cluster\<close>

lemma signature_viewOfN1: "createClusterSignature viewOfN1 = ''n1:myself,master|n2:master''"
  by (simp add: createClusterSignature_def viewOfN1_def viewNode_def)

lemma signature_viewOfN2: "createClusterSignature viewOfN2 = ''n1:master|n2:myself,master''"
  by (simp add: createClusterSignature_def viewOfN2_def viewNode_def)

lemma steadyCluster_not_consistent: "\<not> viewsConsistent (steadyCluster k) 0 [] viewOfN1"
  by (simp add: steadyCluster_def viewOfN1_def viewOfN2_def viewNode_def createClusterSignature_def)

lemma steadyCluster_wait: "\<not> waitForClusterJoin polls steadyCluster ''10.0.0.1:7001'' k"
proof (induction polls arbitrary: k)
  case 0
  show ?case by simp
next
  case (Suc polls)
  have "steadyCluster k ''10.0.0.1:7001'' = Inr viewOfN1"
    by (simp add: steadyCluster_def)
  with Suc steadyCluster_not_consistent show ?case by simp
qed

text \<open>
  A poll is consistent only if the views of all polled nodes could be fetched and have
  one and the same signature.
\<close>

lemma viewsConsistent_later:
  "viewsConsistent getNodes i firstSignature nodes \<Longrightarrow> 0 < i \<Longrightarrow> node \<in> set nodes \<Longrightarrow> polled node \<Longrightarrow>
     \<exists>v. getNodes (cn_Address node) = Inr v \<and> createClusterSignature v = firstSignature"
proof (induction nodes arbitrary: i)
  case Nil
  then show ?case by simp
next
  case (Cons a nodes)
  then show ?case
    by (auto simp: polled_def Let_def split: if_splits sum.splits)
qed

lemma viewsConsistent_equal_signatures:
  assumes "viewsConsistent getNodes 0 [] nodes"
  shows "\<exists>s. \<forall>node\<in>set nodes. polled node \<longrightarrow>
           (\<exists>v. getNodes (cn_Address node) = Inr v \<and> createClusterSignature v = s)"
proof (cases nodes)
  case Nil
  then show ?thesis by simp
next
  case (Cons a rest)
  show ?thesis
  proof (cases "polled a")
    case False
    with assms Cons have "viewsConsistent getNodes 1 [] rest"
      by (auto simp: polled_def split: if_splits)
    from viewsConsistent_later [OF this] False Cons show ?thesis
      by (intro exI [of _ "[]"]) auto
  next
    case True
    with assms Cons obtain v where v: "getNodes (cn_Address a) = Inr v"
      and rest: "viewsConsistent getNodes 1 (createClusterSignature v) rest"
      by (auto simp: polled_def Let_def split: if_splits sum.splits)
    from viewsConsistent_later [OF rest] v Cons show ?thesis
      by (intro exI [of _ "createClusterSignature v"]) auto
  qed
qed

text \<open>
  Claim C7 says that the signature of a view is the sorted list of \<open>node_id:flags\<close>
  entries without the flags \<open>myself\<close> and \<open>handshake\<close>, and that convergence is
  declared when the signatures of all reachable nodes are equal.
  \<open>createClusterSignature\<close> neither sorts nor strips: on a steady cluster of two
  primaries the two signatures differ in the place of \<open>myself\<close>, although the
  signatures of the specification are equal, and the wait ends in its timeout however
  many polls it makes.
\<close>

theorem join_wait_never_converges:
  "createClusterSignature viewOfN1 \<noteq> createClusterSignature viewOfN2
   \<and> specSignature viewOfN1 = specSignature viewOfN2
   \<and> \<not> waitForClusterJoin polls steadyCluster ''10.0.0.1:7001'' 0"
proof -
  have "specSignature viewOfN1 = specSignature viewOfN2"
    by code_simp
  then show ?thesis
    using steadyCluster_wait by (simp add: signature_viewOfN1 signature_viewOfN2)
qed

section \<open>The order of the commands of one slot\<close>

lemma run_phases_append:
  "run_phases ord p (xs @ ys) =
     (case run_phases ord p xs of None \<Rightarrow> None | Some q \<Rightarrow> run_phases ord q ys)"
  by (induction xs arbitrary: p) (auto split: option.splits)

lemma kind_setslot_source:
  "kind (Call Source (setslot slot sub nodeID) r) =
     (if sub = ''MIGRATING'' then MarkMigrating else if sub = ''NODE'' then AssignSource else Other)"
  by (simp add: kind_def setslot_def setslotSub_def isGetKeys_def isMigrate_def)

lemma kind_setslot_target:
  "kind (Call Target (setslot slot sub nodeID) r) =
     (if sub = ''IMPORTING'' then MarkImporting else if sub = ''NODE'' then AssignTarget else Other)"
  by (simp add: kind_def setslot_def setslotSub_def)

lemma kind_getkeys:
  "kind (Call Source [S ''CLUSTER'', S ''GETKEYSINSLOT'', I slot, I cnt] r) =
     (case r of Keys ks \<Rightarrow> FetchKeys (length ks) | _ \<Rightarrow> FetchFailed)"
  by (simp add: kind_def setslotSub_def isGetKeys_def)

lemma kind_migrate_reshard:
  "kind (Call Source (buildMigrateCommandForReshard h p k u pw) r) = MigrateKey"
  by (simp add: kind_def buildMigrateCommandForReshard_def Let_def setslotSub_def isGetKeys_def isMigrate_def)

lemma kind_migrate_delnode:
  "kind (Call Source (buildMigrateCommand h p k u pw) r) = MigrateKey"
  by (simp add: kind_def buildMigrateCommand_def Let_def setslotSub_def isGetKeys_def isMigrate_def)

lemma kind_migrate_rebalance:
  "kind (Call Source (migrateKeysBatchCmd h p k u pw) r) = MigrateKey"
  by (simp add: kind_def migrateKeysBatchCmd_def setslotSub_def isGetKeys_def isMigrate_def)

lemma kind_sleep: "kind (Sleep ms) = Pause"
  by (simp add: kind_def)

lemma kind_node: "kind (Call (Node a) args r) = Publish"
  by (simp add: kind_def)

lemma kind_cluster: "kind (Call Cluster args r) = Publish"
  by (simp add: kind_def)

lemmas kind_simps = kind_setslot_source kind_setslot_target kind_getkeys kind_migrate_reshard
  kind_migrate_delnode kind_migrate_rebalance kind_sleep kind_node kind_cluster

lemma next_phase_transferring:
  "next_phase ord Transferring MigrateKey = Some Transferring"
  "next_phase ord Transferring Pause = Some Transferring"
  "next_phase ord Transferring FetchFailed = Some Transferring"
  "next_phase ord Transferring (FetchKeys k) = Some (if k = 0 then Drained else Transferring)"
  by (simp_all add: next_phase_def)

lemma migrateEachKey_phases:
  "migrateEachKey e h p u pw keys n = (r, t, n') \<Longrightarrow>
     run_phases ord Transferring (map kind t) = Some Transferring"
proof (induction keys arbitrary: n r t n')
  case Nil
  then show ?case by simp
next
  case (Cons key keys)
  then show ?case
    by (auto simp: doErr_def kind_simps next_phase_transferring split: option.splits prod.splits)
qed

lemma migrateSlotKeys_phases:
  "migrateSlotKeys fuel e slot h p ps u pw n = (r, t, n') \<Longrightarrow>
     run_phases ord Transferring (map kind t) = Some (if r = Done then Drained else Transferring)"
proof (induction fuel arbitrary: n r t n')
  case 0
  then show ?case by simp
next
  case (Suc fuel)
  show ?case
  proof (cases "keysOf e n")
    case (Inl msg)
    with Suc.prems show ?thesis
      by (auto simp: ClusterGetKeysInSlot_def kind_simps next_phase_transferring)
  next
    case (Inr keys)
    show ?thesis
    proof (cases "keys = []")
      case True
      with Inr Suc.prems show ?thesis
        by (auto simp: ClusterGetKeysInSlot_def kind_simps next_phase_transferring)
    next
      case False
      obtain r2 t2 n2 where each: "migrateEachKey e h p u pw keys (Suc n) = (r2, t2, n2)"
        by (cases "migrateEachKey e h p u pw keys (Suc n)") auto
      note ph2 = migrateEachKey_phases [OF each, of ord]
      show ?thesis
      proof (cases r2)
        case (Some err)
        with Inr False each Suc.prems ph2 show ?thesis
          by (auto simp: ClusterGetKeysInSlot_def kind_simps next_phase_transferring run_phases_append)
      next
        case None
        obtain r3 t3 n3 where rest: "migrateSlotKeys fuel e slot h p ps u pw n2 = (r3, t3, n3)"
          by (cases "migrateSlotKeys fuel e slot h p ps u pw n2") auto
        note ph3 = Suc.IH [OF rest]
        from None Inr False each rest Suc.prems ph2 ph3 show ?thesis
          by (auto simp: ClusterGetKeysInSlot_def kind_simps next_phase_transferring run_phases_append)
      qed
    qed
  qed
qed

lemma assignSlotToTarget_phases:
  "assignSlotToTarget e slot nodeID n = (r, t, n') \<Longrightarrow>
     \<exists>q. run_phases ord Drained (map kind t) = Some q \<and> (r = Done \<longrightarrow> q = StableB)"
  by (auto simp: assignSlotToTarget_def doErr_def kind_simps next_phase_def split: option.splits)

lemma migrateSlot_phases:
  assumes "migrateSlot fuel e slot h p ps src tgt u pw n = (r, t, n')"
  shows "\<exists>q. run_phases MigratingFirst StableA (map kind t) = Some q \<and> (r = Done \<longrightarrow> q = StableB)"
proof -
  obtain r1 t1 n1 where s1: "doErr e Source (setslot slot ''MIGRATING'' tgt) n = (r1, t1, n1)"
    by (cases "doErr e Source (setslot slot ''MIGRATING'' tgt) n") auto
  then have p1: "run_phases MigratingFirst StableA (map kind t1) = Some MigratingSet"
    by (auto simp: doErr_def kind_simps next_phase_def split: option.splits)
  obtain r2 t2 n2 where s2: "doErr e Target (setslot slot ''IMPORTING'' src) n1 = (r2, t2, n2)"
    by (cases "doErr e Target (setslot slot ''IMPORTING'' src) n1") auto
  then have p2: "run_phases MigratingFirst MigratingSet (map kind t2) = Some Transferring"
    by (auto simp: doErr_def kind_simps next_phase_def split: option.splits)
  obtain r3 t3 n3 where s3: "migrateSlotKeys fuel e slot h p ps u pw n2 = (r3, t3, n3)"
    by (cases "migrateSlotKeys fuel e slot h p ps u pw n2") auto
  note p3 = migrateSlotKeys_phases [OF s3, of MigratingFirst]
  obtain r4 t4 n4 where s4: "assignSlotToTarget e slot tgt n3 = (r4, t4, n4)"
    by (cases "assignSlotToTarget e slot tgt n3") auto
  from assignSlotToTarget_phases [OF s4, of MigratingFirst]
  obtain q4 where p4: "run_phases MigratingFirst Drained (map kind t4) = Some q4" "r4 = Done \<longrightarrow> q4 = StableB"
    by auto
  show ?thesis
  proof (cases r1)
    case (Some msg)
    with assms s1 p1 show ?thesis by (auto simp: migrateSlot_def)
  next
    case n1: None
    show ?thesis
    proof (cases r2)
      case (Some msg)
      with assms n1 s1 s2 p1 p2 show ?thesis by (auto simp: migrateSlot_def run_phases_append)
    next
      case n2: None
      show ?thesis
      proof (cases "r3 = Done")
        case True
        with assms n1 n2 s1 s2 s3 s4 p1 p2 p3 p4 show ?thesis
          by (auto simp: migrateSlot_def run_phases_append)
      next
        case False
        with assms n1 n2 s1 s2 s3 p1 p2 p3 show ?thesis
          by (cases r3) (auto simp: migrateSlot_def run_phases_append)
      qed
    qed
  qed
qed

lemma pipelineExec_phases:
  "pipelineExec e (map (\<lambda>key. migrateKeysBatchCmd h p key u pw) keys) n = (rs, t, n') \<Longrightarrow>
     run_phases ord Transferring (map kind t) = Some Transferring"
proof (induction keys arbitrary: n rs t n')
  case Nil
  then show ?case by simp
next
  case (Cons key keys)
  then show ?case
    by (auto simp: doErr_def kind_simps next_phase_transferring split: option.splits prod.splits)
qed

lemma migrateKeysBatch_phases:
  "migrateKeysBatch e keys h p u pw n = (r, t, n') \<Longrightarrow>
     run_phases ord Transferring (map kind t) = Some Transferring"
  by (auto simp: migrateKeysBatch_def split: if_splits prod.splits option.splits
      dest: pipelineExec_phases)

lemma reshardSlotKeys_phases:
  "reshardSlotKeys fuel e slot h p ps u pw n = (r, t, n') \<Longrightarrow>
     run_phases ord Transferring (map kind t) = Some (if r = Done then Drained else Transferring)"
proof (induction fuel arbitrary: n r t n')
  case 0
  then show ?case by simp
next
  case (Suc fuel)
  show ?case
  proof (cases "keysOf e n")
    case (Inl msg)
    with Suc.prems show ?thesis
      by (auto simp: ClusterGetKeysInSlot_def kind_simps next_phase_transferring)
  next
    case (Inr keys)
    show ?thesis
    proof (cases "keys = []")
      case True
      with Inr Suc.prems show ?thesis
        by (auto simp: ClusterGetKeysInSlot_def kind_simps next_phase_transferring)
    next
      case False
      obtain r2 t2 n2 where batch: "migrateKeysBatch e keys h p u pw (Suc n) = (r2, t2, n2)"
        by (cases "migrateKeysBatch e keys h p u pw (Suc n)") auto
      note ph2 = migrateKeysBatch_phases [OF batch, of ord]
      show ?thesis
      proof (cases r2)
        case (Some err)
        with Inr False batch Suc.prems ph2 show ?thesis
          by (auto simp: ClusterGetKeysInSlot_def kind_simps next_phase_transferring run_phases_append)
      next
        case None
        obtain r3 t3 n3 where rest: "reshardSlotKeys fuel e slot h p ps u pw n2 = (r3, t3, n3)"
          by (cases "reshardSlotKeys fuel e slot h p ps u pw n2") auto
        note ph3 = Suc.IH [OF rest]
        from None Inr False batch rest Suc.prems ph2 ph3 show ?thesis
          by (auto simp: ClusterGetKeysInSlot_def kind_simps next_phase_transferring run_phases_append)
      qed
    qed
  qed
qed

lemma reshardSlotsStep_phases:
  assumes "reshardSlotsStep fuel e src tgt slot h p ps u pw n = (r, t, n')"
  shows "\<exists>q. run_phases MigratingFirst StableA (map kind t) = Some q \<and> (r = Done \<longrightarrow> q = StableB)"
proof -
  obtain r1 t1 n1 where s1: "doErr e Source (setslot slot ''MIGRATING'' tgt) n = (r1, t1, n1)"
    by (cases "doErr e Source (setslot slot ''MIGRATING'' tgt) n") auto
  then have p1: "run_phases MigratingFirst StableA (map kind t1) = Some MigratingSet"
    by (auto simp: doErr_def kind_simps next_phase_def split: option.splits)
  obtain r2 t2 n2 where s2: "doErr e Target (setslot slot ''IMPORTING'' src) n1 = (r2, t2, n2)"
    by (cases "doErr e Target (setslot slot ''IMPORTING'' src) n1") auto
  then have p2: "run_phases MigratingFirst MigratingSet (map kind t2) = Some Transferring"
    by (auto simp: doErr_def kind_simps next_phase_def split: option.splits)
  obtain r3 t3 n3 where s3: "reshardSlotKeys fuel e slot h p ps u pw n2 = (r3, t3, n3)"
    by (cases "reshardSlotKeys fuel e slot h p ps u pw n2") auto
  note p3 = reshardSlotKeys_phases [OF s3, of MigratingFirst]
  obtain r4 t4 n4 where s4: "assignSlotToTarget e slot tgt n3 = (r4, t4, n4)"
    by (cases "assignSlotToTarget e slot tgt n3") auto
  from assignSlotToTarget_phases [OF s4, of MigratingFirst]
  obtain q4 where p4: "run_phases MigratingFirst Drained (map kind t4) = Some q4" "r4 = Done \<longrightarrow> q4 = StableB"
    by auto
  show ?thesis
  proof (cases r1)
    case (Some msg)
    with assms s1 p1 show ?thesis by (auto simp: reshardSlotsStep_def)
  next
    case n1: None
    show ?thesis
    proof (cases r2)
      case (Some msg)
      with assms n1 s1 s2 p1 p2 show ?thesis by (auto simp: reshardSlotsStep_def run_phases_append)
    next
      case n2: None
      show ?thesis
      proof (cases "r3 = Done")
        case True
        with assms n1 n2 s1 s2 s3 s4 p1 p2 p3 p4 show ?thesis
          by (auto simp: reshardSlotsStep_def run_phases_append)
      next
        case False
        with assms n1 n2 s1 s2 s3 p1 p2 p3 show ?thesis
          by (cases r3) (auto simp: reshardSlotsStep_def run_phases_append)
      qed
    qed
  qed
qed

lemma migrateRetry_phases:
  "migrateRetry k retry err e (buildMigrateCommand h p key u pw) n = (r, t, n') \<Longrightarrow>
     run_phases ord Transferring (map kind t) = Some Transferring"
proof (induction k arbitrary: retry err n r t n')
  case 0
  then show ?case by simp
next
  case (Suc k)
  then show ?case
    by (auto simp: doErr_def kind_simps next_phase_transferring run_phases_append
        split: option.splits prod.splits if_splits)
qed

lemma migrateBatchKeys_phases:
  "migrateBatchKeys e h p u pw keys n = (r, t, n') \<Longrightarrow>
     run_phases ord Transferring (map kind t) = Some Transferring"
proof (induction keys arbitrary: n r t n')
  case Nil
  then show ?case by simp
next
  case (Cons key keys)
  obtain r1 t1 n1 where a: "migrateRetry maxRetries 0 None e (buildMigrateCommand h p key u pw) n = (r1, t1, n1)"
    by (cases "migrateRetry maxRetries 0 None e (buildMigrateCommand h p key u pw) n") auto
  note p1 = migrateRetry_phases [OF a, of ord]
  show ?case
  proof (cases r1)
    case (Some msg)
    with Cons.prems a p1 show ?thesis by auto
  next
    case None
    obtain r2 t2 n2 where b: "migrateBatchKeys e h p u pw keys n1 = (r2, t2, n2)"
      by (cases "migrateBatchKeys e h p u pw keys n1") auto
    from None Cons.prems a b p1 Cons.IH [OF b] show ?thesis
      by (auto simp: run_phases_append)
  qed
qed

lemma migrateSlotsKeysWithBatching_phases:
  "migrateSlotsKeysWithBatching fuel e slot h p u pw bs n = (r, t, n') \<Longrightarrow>
     run_phases ord Transferring (map kind t) = Some (if r = Done then Drained else Transferring)"
proof (induction fuel arbitrary: n r t n')
  case 0
  then show ?case by simp
next
  case (Suc fuel)
  show ?case
  proof (cases "keysOf e n")
    case (Inl msg)
    with Suc.prems show ?thesis
      by (auto simp: ClusterGetKeysInSlot_def kind_simps next_phase_transferring)
  next
    case (Inr keys)
    show ?thesis
    proof (cases "keys = []")
      case True
      with Inr Suc.prems show ?thesis
        by (auto simp: ClusterGetKeysInSlot_def kind_simps next_phase_transferring)
    next
      case False
      obtain r2 t2 n2 where batch: "migrateBatchKeys e h p u pw keys (Suc n) = (r2, t2, n2)"
        by (cases "migrateBatchKeys e h p u pw keys (Suc n)") auto
      note ph2 = migrateBatchKeys_phases [OF batch, of ord]
      show ?thesis
      proof (cases r2)
        case (Some err)
        with Inr False batch Suc.prems ph2 show ?thesis
          by (auto simp: ClusterGetKeysInSlot_def kind_simps next_phase_transferring run_phases_append)
      next
        case None
        obtain r3 t3 n3 where rest: "migrateSlotsKeysWithBatching fuel e slot h p u pw bs n2 = (r3, t3, n3)"
          by (cases "migrateSlotsKeysWithBatching fuel e slot h p u pw bs n2") auto
        note ph3 = Suc.IH [OF rest]
        from None Inr False batch rest Suc.prems ph2 ph3 show ?thesis
          by (auto simp: ClusterGetKeysInSlot_def kind_simps next_phase_transferring run_phases_append)
      qed
    qed
  qed
qed

lemma next_phase_stableB:
  "next_phase ord StableB Publish = Some StableB"
  "next_phase ord StableB Pause = Some StableB"
  by (simp_all add: next_phase_def)

lemma publishToLines_phases:
  "publishToLines e slot nodeID lines n = (r, t, n') \<Longrightarrow>
     run_phases ord StableB (map kind t) = Some StableB"
proof (induction lines arbitrary: n r t n')
  case Nil
  then show ?case by simp
next
  case (Cons line lines)
  then show ?case
    by (auto simp: doErr_def Let_def kind_simps next_phase_stableB
        split: option.splits prod.splits if_splits)
qed

lemma updateAllNodes_phases:
  "updateAllNodesSlotOwnershipForDelNode e slot nodeID n = (r, t, n') \<Longrightarrow>
     run_phases ord StableB (map kind t) = Some StableB"
  by (auto simp: updateAllNodesSlotOwnershipForDelNode_def ClusterNodes_def kind_simps
      next_phase_stableB run_phases_append
      split: sum.splits prod.splits if_splits dest: publishToLines_phases)

lemma moveSlotsStep_phases:
  assumes "moveSlotsStep fuel e i src tgt slot h p u pw n = (r, t, n')"
  shows "\<exists>q. run_phases ImportingFirst StableA (map kind t) = Some q \<and> (r = Done \<longrightarrow> q = StableB)"
proof -
  obtain r1 t1 n1 where s1: "doErr e Target (setslot slot ''IMPORTING'' src) n = (r1, t1, n1)"
    by (cases "doErr e Target (setslot slot ''IMPORTING'' src) n") auto
  then have p1: "run_phases ImportingFirst StableA (map kind t1) = Some ImportingSet"
    by (auto simp: doErr_def kind_simps next_phase_def split: option.splits)
  obtain r2 t2 n2 where s2: "doErr e Source (setslot slot ''MIGRATING'' tgt) n1 = (r2, t2, n2)"
    by (cases "doErr e Source (setslot slot ''MIGRATING'' tgt) n1") auto
  then have p2: "run_phases ImportingFirst ImportingSet (map kind t2) = Some Transferring"
    by (auto simp: doErr_def kind_simps next_phase_def split: option.splits)
  obtain r3 t3 n3 where s3: "migrateSlotsKeysWithBatching fuel e slot h p u pw 500 n2 = (r3, t3, n3)"
    by (cases "migrateSlotsKeysWithBatching fuel e slot h p u pw 500 n2") auto
  note p3 = migrateSlotsKeysWithBatching_phases [OF s3, of ImportingFirst]
  obtain r4 t4 n4 where s4: "assignSlotToTarget e slot tgt n3 = (r4, t4, n4)"
    by (cases "assignSlotToTarget e slot tgt n3") auto
  from assignSlotToTarget_phases [OF s4, of ImportingFirst]
  obtain q4 where p4: "run_phases ImportingFirst Drained (map kind t4) = Some q4" "r4 = Done \<longrightarrow> q4 = StableB"
    by auto
  obtain r5 t5 n5 where s5: "updateAllNodesSlotOwnershipForDelNode e slot tgt n4 = (r5, t5, n5)"
    by (cases "updateAllNodesSlotOwnershipForDelNode e slot tgt n4") auto
  note p5 = updateAllNodes_phases [OF s5, of ImportingFirst]
  show ?thesis
  proof (cases r1)
    case (Some msg)
    with assms s1 p1 show ?thesis by (auto simp: moveSlotsStep_def)
  next
    case n1: None
    show ?thesis
    proof (cases r2)
      case (Some msg)
      with assms n1 s1 s2 p1 p2 show ?thesis by (auto simp: moveSlotsStep_def run_phases_append)
    next
      case n2: None
      show ?thesis
      proof (cases "r3 = Done")
        case d3: True
        show ?thesis
        proof (cases "r4 = Done")
          case True
          with assms n1 n2 d3 s1 s2 s3 s4 s5 p1 p2 p3 p4 p5 show ?thesis
            by (cases r5) (auto simp: moveSlotsStep_def run_phases_append kind_simps next_phase_stableB)
        next
          case False
          with assms n1 n2 d3 s1 s2 s3 s4 p1 p2 p3 p4 show ?thesis
            by (cases r4) (auto simp: moveSlotsStep_def run_phases_append)
        qed
      next
        case False
        with assms n1 n2 s1 s2 s3 p1 p2 p3 show ?thesis
          by (cases r3) (auto simp: moveSlotsStep_def run_phases_append)
      qed
    qed
  qed
qed

lemma oneKey_reshard_done:
  "fst (migrateSlot 2 oneKeyEnv 10923 ''10.0.0.1'' ''7001'' 10 ''n3'' ''n1'' [] ''secret'' 0) = Done"
  by code_simp

lemma oneKey_rebalance_done:
  "fst (reshardSlotsStep 2 oneKeyEnv ''n3'' ''n1'' 10923 ''10.0.0.1'' ''7001'' 10 [] ''secret'' 0) = Done"
  by code_simp

lemma oneKey_delnode_done:
  "fst (moveSlotsStep 2 oneKeyEnv 0 ''n3'' ''n1'' 10923 ''10.0.0.1'' ''7001'' [] ''secret'' 0) = Done"
  by code_simp

text \<open>
  Claim C1 says that for every slot moved, in reshard, rebalance and del-node alike,
  \<open>SETSLOT IMPORTING\<close> is never issued before \<open>SETSLOT MIGRATING\<close>.  The slot loop
  of del-node (\<open>moveSlots\<close>) sends \<open>IMPORTING\<close> to the target first and
  \<open>MIGRATING\<close> to the source second, so the state machine that starts with
  \<open>MIGRATING\<close> rejects its log.
\<close>

theorem delnode_importing_before_migrating:
  "take 2 (fst (snd (moveSlotsStep 2 oneKeyEnv 0 ''n3'' ''n1'' 10923 ''10.0.0.1'' ''7001'' [] ''secret'' 0))) =
     [Call Target [S ''CLUSTER'', S ''SETSLOT'', I 10923, S ''IMPORTING'', S ''n3''] Ok,
      Call Source [S ''CLUSTER'', S ''SETSLOT'', I 10923, S ''MIGRATING'', S ''n1''] Ok]
   \<and> run_phases MigratingFirst StableA
        (map kind (fst (snd (moveSlotsStep 2 oneKeyEnv 0 ''n3'' ''n1'' 10923 ''10.0.0.1'' ''7001'' [] ''secret'' 0))))
      = None"
  by code_simp

text \<open>
  Claim C1, amended.  For one slot, whatever the servers answer and however long the
  source keeps reporting keys: reshard (\<open>migrateSlot\<close>) and rebalance (the slot loop of
  \<open>reshardSlots\<close>) issue \<open>SETSLOT MIGRATING\<close> on the source, then
  \<open>SETSLOT IMPORTING\<close> on the target; del-node (the slot loop of \<open>moveSlots\<close>)
  issues \<open>SETSLOT IMPORTING\<close> on the target, then \<open>SETSLOT MIGRATING\<close> on the
  source.  In all three, key fetches and MIGRATEs come only after both markers and go
  on until a fetch reports zero keys; only then comes \<open>SETSLOT NODE\<close> on the source
  and after it on the target (and, in del-node, the publication to the other nodes).
  The log of every run is a path of the state machine, and a run that completes ends in
  the state where the target owns the slot.
\<close>

theorem slot_migration_order:
  "run_phases MigratingFirst StableA
      (map kind (fst (snd (migrateSlot fuel e slot h p ps src tgt u pw n)))) \<noteq> None
   \<and> (fst (migrateSlot fuel e slot h p ps src tgt u pw n) = Done \<longrightarrow>
        run_phases MigratingFirst StableA
          (map kind (fst (snd (migrateSlot fuel e slot h p ps src tgt u pw n)))) = Some StableB)
   \<and> run_phases MigratingFirst StableA
      (map kind (fst (snd (reshardSlotsStep fuel e src tgt slot h p ps u pw n)))) \<noteq> None
   \<and> (fst (reshardSlotsStep fuel e src tgt slot h p ps u pw n) = Done \<longrightarrow>
        run_phases MigratingFirst StableA
          (map kind (fst (snd (reshardSlotsStep fuel e src tgt slot h p ps u pw n)))) = Some StableB)
   \<and> run_phases ImportingFirst StableA
      (map kind (fst (snd (moveSlotsStep fuel e i src tgt slot h p u pw n)))) \<noteq> None
   \<and> (fst (moveSlotsStep fuel e i src tgt slot h p u pw n) = Done \<longrightarrow>
        run_phases ImportingFirst StableA
          (map kind (fst (snd (moveSlotsStep fuel e i src tgt slot h p u pw n)))) = Some StableB)"
proof -
  obtain r1 t1 n1 where a: "migrateSlot fuel e slot h p ps src tgt u pw n = (r1, t1, n1)"
    by (cases "migrateSlot fuel e slot h p ps src tgt u pw n") auto
  obtain r2 t2 n2 where b: "reshardSlotsStep fuel e src tgt slot h p ps u pw n = (r2, t2, n2)"
    by (cases "reshardSlotsStep fuel e src tgt slot h p ps u pw n") auto
  obtain r3 t3 n3 where c: "moveSlotsStep fuel e i src tgt slot h p u pw n = (r3, t3, n3)"
    by (cases "moveSlotsStep fuel e i src tgt slot h p u pw n") auto
  from migrateSlot_phases [OF a] reshardSlotsStep_phases [OF b] moveSlotsStep_phases [OF c]
  show ?thesis
    unfolding a b c by auto
qed

text \<open>
  The amended claim C1 on a run in which the source holds one key: all three paths
  complete, each along its own order of the two markers.
\<close>

theorem slot_migration_order_witness:
  "run_phases MigratingFirst StableA
      (map kind (fst (snd (migrateSlot 2 oneKeyEnv 10923 ''10.0.0.1'' ''7001'' 10 ''n3'' ''n1'' [] ''secret'' 0))))
     = Some StableB
   \<and> run_phases MigratingFirst StableA
      (map kind (fst (snd (reshardSlotsStep 2 oneKeyEnv ''n3'' ''n1'' 10923 ''10.0.0.1'' ''7001'' 10 [] ''secret'' 0))))
     = Some StableB
   \<and> run_phases ImportingFirst StableA
      (map kind (fst (snd (moveSlotsStep 2 oneKeyEnv 0 ''n3'' ''n1'' 10923 ''10.0.0.1'' ''7001'' [] ''secret'' 0))))
     = Some StableB"
  using slot_migration_order [of 2 oneKeyEnv 10923 "''10.0.0.1''" "''7001''" 10 "''n3''" "''n1''" "[]" "''secret''" 0 0]
        oneKey_reshard_done oneKey_rebalance_done oneKey_delnode_done
  by simp

text \<open>
  The slots of one batch are moved one after another: the log of the slot loop of
  rebalance and of del-node is a path of the state machine of a batch.
\<close>

lemma run_batch_append:
  "run_batch ord p (xs @ ys) =
     (case run_batch ord p xs of None \<Rightarrow> None | Some q \<Rightarrow> run_batch ord q ys)"
  by (induction xs arbitrary: p) (auto split: option.splits)

lemma run_phases_run_batch:
  "run_phases ord p xs = Some q \<Longrightarrow> run_batch ord p xs = Some q"
  by (induction xs arbitrary: p) (auto simp: next_batch_phase_def split: option.splits)

lemma run_batch_restart:
  assumes "run_phases ord StableA (s # ss) = Some q" and "s = MarkMigrating \<or> s = MarkImporting"
  shows "run_batch ord StableB (s # ss) = Some q"
proof -
  from assms(1) obtain p1 where p1: "next_phase ord StableA s = Some p1" "run_phases ord p1 ss = Some q"
    by (auto split: option.splits)
  from assms(2) have "next_phase ord StableB s = None"
    by (auto simp: next_phase_def)
  with p1 have "next_batch_phase ord StableB s = Some p1"
    by (simp add: next_batch_phase_def)
  with run_phases_run_batch [OF p1(2)] show ?thesis by simp
qed

lemma reshardSlotsStep_first:
  "reshardSlotsStep fuel e src tgt slot h p ps u pw n = (r, t, n') \<Longrightarrow>
     \<exists>ev t'. t = ev # t' \<and> kind ev = MarkMigrating"
  by (auto simp: reshardSlotsStep_def doErr_def kind_simps
      split: option.splits prod.splits result.splits)

lemma moveSlotsStep_first:
  "moveSlotsStep fuel e i src tgt slot h p u pw n = (r, t, n') \<Longrightarrow>
     \<exists>ev t'. t = ev # t' \<and> kind ev = MarkImporting"
  by (auto simp: moveSlotsStep_def doErr_def kind_simps
      split: option.splits prod.splits result.splits)

lemma reshardSlots_batch_order:
  assumes "reshardSlots fuel e src tgt slots h p ps u pw n = (r, t, n')"
    and "p0 = StableA \<or> p0 = StableB"
  shows "\<exists>q. run_batch MigratingFirst p0 (map kind t) = Some q \<and> (r = Done \<and> slots \<noteq> [] \<longrightarrow> q = StableB)"
  using assms
proof (induction slots arbitrary: n r t n' p0)
  case Nil
  then show ?case by simp
next
  case (Cons slot slots)
  obtain r1 t1 n1 where s1: "reshardSlotsStep fuel e src tgt slot h p ps u pw n = (r1, t1, n1)"
    by (cases "reshardSlotsStep fuel e src tgt slot h p ps u pw n") auto
  from reshardSlotsStep_phases [OF s1] obtain q1 where
    q1: "run_phases MigratingFirst StableA (map kind t1) = Some q1" "r1 = Done \<longrightarrow> q1 = StableB"
    by auto
  from reshardSlotsStep_first [OF s1] obtain ev t' where ev: "t1 = ev # t'" "kind ev = MarkMigrating"
    by auto
  have b1: "run_batch MigratingFirst p0 (map kind t1) = Some q1"
  proof (cases "p0 = StableA")
    case True
    with q1(1) show ?thesis by (simp add: run_phases_run_batch)
  next
    case False
    with Cons.prems(2) have "p0 = StableB" by simp
    with q1(1) ev show ?thesis using run_batch_restart [of MigratingFirst "kind ev" "map kind t'" q1]
      by simp
  qed
  show ?case
  proof (cases "r1 = Done")
    case False
    with Cons.prems(1) s1 have "r = r1" "t = t1"
      by (cases r1; simp)+
    with b1 False show ?thesis by simp
  next
    case True
    obtain r2 t2 n2 where s2: "reshardSlots fuel e src tgt slots h p ps u pw n1 = (r2, t2, n2)"
      by (cases "reshardSlots fuel e src tgt slots h p ps u pw n1") auto
    from Cons.IH [OF s2, of StableB] obtain q2 where
      q2: "run_batch MigratingFirst StableB (map kind t2) = Some q2" "r2 = Done \<and> slots \<noteq> [] \<longrightarrow> q2 = StableB"
      by auto
    from True Cons.prems(1) s1 s2 have rt: "r = r2" "t = t1 @ t2" by simp_all
    have "slots = [] \<Longrightarrow> q2 = StableB" using q2(1) s2 by auto
    with True q1 b1 q2 rt show ?thesis
      by (auto simp: run_batch_append)
  qed
qed

lemma moveSlotsLoop_batch_order:
  assumes "moveSlotsLoop fuel e i src tgt slots h p u pw n = (r, t, n')"
    and "p0 = StableA \<or> p0 = StableB"
  shows "\<exists>q. run_batch ImportingFirst p0 (map kind t) = Some q \<and> (r = Done \<and> slots \<noteq> [] \<longrightarrow> q = StableB)"
  using assms
proof (induction slots arbitrary: i n r t n' p0)
  case Nil
  then show ?case by simp
next
  case (Cons slot slots)
  obtain r1 t1 n1 where s1: "moveSlotsStep fuel e i src tgt slot h p u pw n = (r1, t1, n1)"
    by (cases "moveSlotsStep fuel e i src tgt slot h p u pw n") auto
  from moveSlotsStep_phases [OF s1] obtain q1 where
    q1: "run_phases ImportingFirst StableA (map kind t1) = Some q1" "r1 = Done \<longrightarrow> q1 = StableB"
    by auto
  from moveSlotsStep_first [OF s1] obtain ev t' where ev: "t1 = ev # t'" "kind ev = MarkImporting"
    by auto
  have b1: "run_batch ImportingFirst p0 (map kind t1) = Some q1"
  proof (cases "p0 = StableA")
    case True
    with q1(1) show ?thesis by (simp add: run_phases_run_batch)
  next
    case False
    with Cons.prems(2) have "p0 = StableB" by simp
    with q1(1) ev show ?thesis using run_batch_restart [of ImportingFirst "kind ev" "map kind t'" q1]
      by simp
  qed
  show ?case
  proof (cases "r1 = Done")
    case False
    with Cons.prems(1) s1 have "r = r1" "t = t1"
      by (cases r1; simp)+
    with b1 False show ?thesis by simp
  next
    case True
    obtain r2 t2 n2 where s2: "moveSlotsLoop fuel e (i + 1) src tgt slots h p u pw n1 = (r2, t2, n2)"
      by (cases "moveSlotsLoop fuel e (i + 1) src tgt slots h p u pw n1") auto
    from Cons.IH [OF s2, of StableB] obtain q2 where
      q2: "run_batch ImportingFirst StableB (map kind t2) = Some q2" "r2 = Done \<and> slots \<noteq> [] \<longrightarrow> q2 = StableB"
      by auto
    from True Cons.prems(1) s1 s2 have rt: "r = r2" "t = t1 @ t2" by simp_all
    have "slots = [] \<Longrightarrow> q2 = StableB" using q2(1) s2 by auto
    with True q1 b1 q2 rt show ?thesis
      by (auto simp: run_batch_append)
  qed
qed

section \<open>Network errors during key migration\<close>

text \<open>
  The retry loop of del-node on an error that persists: three attempts, each followed by
  a pause of 100 ms times the number of the attempt, then the error is returned.
\<close>

lemma migrateRetry_persistent_error:
  assumes "\<forall>i<3. \<exists>msg. errOf e (n + i) = Some msg \<and> (Contains msg ''timeout'' \<or> Contains msg ''connection'')"
  shows "\<exists>m0 m1 m2. migrateRetry maxRetries 0 None e migrateCmd n =
           (Some m2,
            [Call Source migrateCmd (Err m0), Sleep 100,
             Call Source migrateCmd (Err m1), Sleep 200,
             Call Source migrateCmd (Err m2), Sleep 300],
            n + 3)"
proof -
  from assms obtain m0 where m0: "errOf e n = Some m0" "Contains m0 ''timeout'' \<or> Contains m0 ''connection''"
    by (metis add.right_neutral zero_less_numeral)
  from assms obtain m1 where m1: "errOf e (Suc n) = Some m1" "Contains m1 ''timeout'' \<or> Contains m1 ''connection''"
    by (metis Suc_eq_plus1 one_less_numeral_iff semiring_norm(77))
  have "(2::nat) < 3" by simp
  with assms obtain m2 where m2: "errOf e (Suc (Suc n)) = Some m2" "Contains m2 ''timeout'' \<or> Contains m2 ''connection''"
    by (metis add_2_eq_Suc')
  have three: "maxRetries = Suc (Suc (Suc 0))"
    by (simp add: maxRetries_def numeral_3_eq_3)
  show ?thesis
    using m0 m1 m2 unfolding three by (simp add: doErr_def)
qed

lemma delnode_retries_on_timeout:
  "moveSlotsStep 2 timeoutEnv 0 ''n3'' ''n1'' 10923 ''10.0.0.1'' ''7001'' [] ''secret'' 0 =
     (Failed (ErrMigrateKey ''key:0000000001'' ''i/o timeout''),
      [Call Target [S ''CLUSTER'', S ''SETSLOT'', I 10923, S ''IMPORTING'', S ''n3''] Ok,
       Call Source [S ''CLUSTER'', S ''SETSLOT'', I 10923, S ''MIGRATING'', S ''n1''] Ok,
       Call Source [S ''CLUSTER'', S ''GETKEYSINSLOT'', I 10923, I 500] (Keys [''key:0000000001'']),
       Call Source [S ''MIGRATE'', S ''10.0.0.1'', S ''7001'', S ''key:0000000001'', I 0, I 60000,
                    S ''AUTH'', S ''secret''] (Err ''i/o timeout''),
       Sleep 100,
       Call Source [S ''MIGRATE'', S ''10.0.0.1'', S ''7001'', S ''key:0000000001'', I 0, I 60000,
                    S ''AUTH'', S ''secret''] (Err ''i/o timeout''),
       Sleep 200,
       Call Source [S ''MIGRATE'', S ''10.0.0.1'', S ''7001'', S ''key:0000000001'', I 0, I 60000,
                    S ''AUTH'', S ''secret''] (Err ''i/o timeout''),
       Sleep 300],
      6)"
  by code_simp

text \<open>
  Claim C3 says that in every key-migration path a network error on a key's MIGRATE is
  retried up to three times with a growing pause before the slot aborts.  When the
  MIGRATE of a key times out, reshard (\<open>migrateSlot\<close>) and rebalance
  (\<open>reshardSlots\<close>) send it once and abort the slot, with no pause and no second
  attempt; only del-node retries.
\<close>

theorem reshard_rebalance_abort_on_first_timeout:
  "migrateSlot 2 timeoutEnv 10923 ''10.0.0.1'' ''7001'' 10 ''n3'' ''n1'' [] ''secret'' 0 =
     (Failed (ErrMigrateKey ''key:0000000001'' ''i/o timeout''),
      [Call Source [S ''CLUSTER'', S ''SETSLOT'', I 10923, S ''MIGRATING'', S ''n1''] Ok,
       Call Target [S ''CLUSTER'', S ''SETSLOT'', I 10923, S ''IMPORTING'', S ''n3''] Ok,
       Call Source [S ''CLUSTER'', S ''GETKEYSINSLOT'', I 10923, I 10] (Keys [''key:0000000001'']),
       Call Source [S ''MIGRATE'', S ''10.0.0.1'', S ''7001'', S ''key:0000000001'', I 0, I 60000,
                    S ''AUTH'', S ''secret''] (Err ''i/o timeout'')],
      4)
   \<and> reshardSlotsStep 2 timeoutEnv ''n3'' ''n1'' 10923 ''10.0.0.1'' ''7001'' 10 [] ''secret'' 0 =
     (Failed (ErrPipeline ''i/o timeout''),
      [Call Source [S ''CLUSTER'', S ''SETSLOT'', I 10923, S ''MIGRATING'', S ''n1''] Ok,
       Call Target [S ''CLUSTER'', S ''SETSLOT'', I 10923, S ''IMPORTING'', S ''n3''] Ok,
       Call Source [S ''CLUSTER'', S ''GETKEYSINSLOT'', I 10923, I 10] (Keys [''key:0000000001'']),
       Call Source [S ''MIGRATE'', S ''10.0.0.1'', S ''7001'', S ''key:0000000001'', I 0, I 60000,
                    S ''AUTH'', S ''secret''] (Err ''i/o timeout'')],
      4)"
  by code_simp

section \<open>Roles of the nodes of a view\<close>










section \<open>Connecting twice to one address\<close>

lemma Connect_cached:
  "map_of (cm_nodes cm) address = Some c \<Longrightarrow> Connect pingErr cm nw address = (Inr c, cm, nw)"
  by (simp add: Connect_def)

lemma Connect_success_cached:
  "Connect pingErr cm nw address = (Inr c, cm1, nw1) \<Longrightarrow> map_of (cm_nodes cm1) address = Some c"
  by (auto simp: Connect_def Let_def map_add_def split: option.splits sum.splits prod.splits)

lemma Connect_keeps:
  "map_of (cm_nodes cm) a = Some c \<Longrightarrow> Connect pingErr cm nw b = (r, cm1, nw1) \<Longrightarrow>
     map_of (cm_nodes cm1) a = Some c"
  by (auto simp: Connect_def Let_def map_add_def split: option.splits sum.splits prod.splits)

lemma ConnectAll_keeps:
  "map_of (cm_nodes cm) a = Some c \<Longrightarrow> ConnectAll pingErr cm nw addrs = (cm2, nw2) \<Longrightarrow>
     map_of (cm_nodes cm2) a = Some c"
proof (induction addrs arbitrary: cm nw)
  case Nil
  then show ?case by simp
next
  case (Cons b addrs)
  obtain r cm1 nw1 where s: "Connect pingErr cm nw b = (r, cm1, nw1)"
    by (cases "Connect pingErr cm nw b") auto
  from Connect_keeps [OF Cons.prems(1) s] Cons.IH [of cm1 nw1] Cons.prems(2) s
  show ?case by simp
qed

lemma Connect_distinct:
  "distinct (map fst (cm_nodes cm)) \<Longrightarrow> Connect pingErr cm nw b = (r, cm1, nw1) \<Longrightarrow>
     distinct (map fst (cm_nodes cm1))"
  by (auto simp: Connect_def Let_def map_of_eq_None_iff split: option.splits sum.splits prod.splits)

lemma ConnectAll_distinct:
  "distinct (map fst (cm_nodes cm)) \<Longrightarrow> ConnectAll pingErr cm nw addrs = (cm2, nw2) \<Longrightarrow>
     distinct (map fst (cm_nodes cm2))"
proof (induction addrs arbitrary: cm nw)
  case Nil
  then show ?case by simp
next
  case (Cons b addrs)
  obtain r cm1 nw1 where s: "Connect pingErr cm nw b = (r, cm1, nw1)"
    by (cases "Connect pingErr cm nw b") auto
  from Connect_distinct [OF Cons.prems(1) s] Cons.IH [of cm1 nw1] Cons.prems(2) s
  show ?case by simp
qed

text \<open>
  Claim C10: once \<open>Connect\<close> has succeeded for an address, every later \<open>Connect\<close>
  for that address, after any number of further \<open>Connect\<close> calls on the manager,
  returns the same client and leaves the manager and the network as they are (no new
  client, no probe), whatever a probe would answer; and the map keeps one entry per
  address.
\<close>

theorem connect_idempotent:
  assumes "distinct (map fst (cm_nodes cm))"
    and "Connect pingErr cm nw address = (Inr c, cm1, nw1)"
    and "ConnectAll pingErr cm1 nw1 addrs = (cm2, nw2)"
  shows "Connect pingErr' cm2 nw' address = (Inr c, cm2, nw')
       \<and> distinct (map fst (cm_nodes cm2))"
  using assms Connect_cached ConnectAll_keeps Connect_success_cached Connect_distinct ConnectAll_distinct
  by metis

lemma first_connect:
  "Connect (\<lambda>c. None) (NewClusterManager ''admin'' ''secret'') \<lparr> opened = 0, clog = [] \<rparr> ''10.0.0.1:7001''
     = (Inr client0, managerOne, netOne)"
  by code_simp

lemma later_connects:
  "ConnectAll (\<lambda>c. None) managerOne netOne [''10.0.0.2:7002'', ''10.0.0.1:7001'', ''10.0.0.9''] = (managerTwo, netTwo)"
  by code_simp

text \<open>
  Claim C10 on a fresh manager: a first connect, then connects to a second address, to
  the first again and to a malformed address; the first client is still returned when
  every probe would fail.
\<close>

theorem connect_idempotent_witness:
  "distinct (map fst (cm_nodes (NewClusterManager ''admin'' ''secret'')))
   \<and> Connect (\<lambda>c. None) (NewClusterManager ''admin'' ''secret'') \<lparr> opened = 0, clog = [] \<rparr> ''10.0.0.1:7001''
       = (Inr client0, managerOne, netOne)
   \<and> ConnectAll (\<lambda>c. None) managerOne netOne [''10.0.0.2:7002'', ''10.0.0.1:7001'', ''10.0.0.9''] = (managerTwo, netTwo)
   \<and> Connect (\<lambda>c. Some ''connection refused'') managerTwo netTwo ''10.0.0.1:7001'' = (Inr client0, managerTwo, netTwo)
   \<and> distinct (map fst (cm_nodes managerTwo))"
proof -
  have d: "distinct (map fst (cm_nodes (NewClusterManager ''admin'' ''secret'')))"
    by (simp add: NewClusterManager_def)
  from connect_idempotent [OF d first_connect later_connects, of "\<lambda>c. Some ''connection refused''" netTwo]
       d first_connect later_connects
  show ?thesis by simp
qed

text \<open>
  \<open>Close\<close> empties the map, so a \<open>Connect\<close> after it opens a new client for the
  address; the runs of claim C10 are runs of \<open>Connect\<close> calls.
\<close>

lemma connect_after_close:
  "Close noCloseError managerTwo netTwo =
     (None, managerTwo\<lparr> cm_nodes := [] \<rparr>,
      netTwo\<lparr> clog := clog netTwo @ [CloseClient client0, CloseClient client1] \<rparr>)
   \<and> fst (Connect (\<lambda>c. None) (managerTwo\<lparr> cm_nodes := [] \<rparr>)
         (netTwo\<lparr> clog := clog netTwo @ [CloseClient client0, CloseClient client1] \<rparr>) ''10.0.0.1:7001'')
      = Inr (client0\<lparr> cl_id := 2 \<rparr>)"
  by code_simp

section \<open>The slot ranges of create\<close>

lemma assignSlotsLoop_ok:
  assumes "assignSlotsLoop addSlotsErr spm rem i cur masters = (cmds, None)"
  shows "length cmds = length masters
       \<and> (\<forall>k<length masters. cmds ! k =
            (masters ! k,
             [cur + (\<Sum>j<k. sizeAt spm rem (i + j)) .. cur + (\<Sum>j<k. sizeAt spm rem (i + j)) + sizeAt spm rem (i + k) - 1]))"
  using assms
proof (induction masters arbitrary: i cur cmds)
  case Nil
  then show ?case by simp
next
  case (Cons m masters)
  let ?slots = "sizeAt spm rem i"
  from Cons.prems obtain cmds' where
    rest: "assignSlotsLoop addSlotsErr spm rem (i + 1) (cur + ?slots) masters = (cmds', None)"
    and cmds: "cmds = (m, [cur .. cur + ?slots - 1]) # cmds'"
    by (auto simp: sizeAt_def Let_def split: option.splits prod.splits if_splits)
  note IH = Cons.IH [OF rest]
  have shift: "\<And>k. (\<Sum>j<Suc k. sizeAt spm rem (i + j)) = ?slots + (\<Sum>j<k. sizeAt spm rem (i + 1 + j))"
    using sum.lessThan_Suc_shift [of "\<lambda>j. sizeAt spm rem (i + j)"] by simp
  show ?case
  proof (intro conjI allI impI)
    show "length cmds = length (m # masters)" using IH cmds by simp
  next
    fix k assume k: "k < length (m # masters)"
    show "cmds ! k = ((m # masters) ! k,
             [cur + (\<Sum>j<k. sizeAt spm rem (i + j)) .. cur + (\<Sum>j<k. sizeAt spm rem (i + j)) + sizeAt spm rem (i + k) - 1])"
    proof (cases k)
      case 0
      then show ?thesis using cmds by simp
    next
      case (Suc k')
      with k have "k' < length masters" by simp
      with IH have "cmds' ! k' = (masters ! k',
          [cur + ?slots + (\<Sum>j<k'. sizeAt spm rem (i + 1 + j)) ..
           cur + ?slots + (\<Sum>j<k'. sizeAt spm rem (i + 1 + j)) + sizeAt spm rem (i + 1 + k') - 1])"
        by simp
      then show ?thesis using Suc cmds shift [of k'] by (simp add: add.assoc)
    qed
  qed
qed

lemma sizeAt_rangeSize:
  "sizeAt (16384 div int m) (16384 mod int m) i = rangeSize m i"
proof -
  have "int (16384 mod m) = 16384 mod int m"
    by (simp add: zmod_int)
  then have "(int i < 16384 mod int m) = (i < 16384 mod m)"
    by (metis of_nat_less_iff)
  then show ?thesis
    by (simp add: sizeAt_def rangeSize_def)
qed

lemma rangeSize_nonneg: "0 \<le> rangeSize m i"
  by (simp add: rangeSize_def div_int_pos_iff)

lemma rangeStart_Suc: "rangeStart m (Suc i) = rangeStart m i + rangeSize m i"
  by (simp add: rangeStart_def)

lemma rangeStart_mono: "i \<le> j \<Longrightarrow> rangeStart m i \<le> rangeStart m j"
proof (induction j)
  case 0
  then show ?case by simp
next
  case (Suc j)
  then show ?case
    using rangeSize_nonneg [of m j] by (cases "i = Suc j") (auto simp: rangeStart_Suc)
qed

lemma rangeStart_total:
  assumes "0 < m"
  shows "rangeStart m m = 16384"
proof -
  let ?q = "16384 div int m" and ?r = "16384 mod m"
  have r: "?r < m" using assms by simp
  have "(\<Sum>j<m. rangeSize m j) = (\<Sum>j<m. ?q) + (\<Sum>j<m. if j < ?r then 1 else 0)"
    by (simp add: rangeSize_def sum.distrib)
  also have "(\<Sum>j<m. if j < ?r then (1::int) else 0) = int ?r"
  proof -
    have "(\<Sum>j<m. if j < ?r then (1::int) else 0) =
            (\<Sum>j\<in>{..<m} \<inter> {j. j < ?r}. 1) + (\<Sum>j\<in>{..<m} \<inter> - {j. j < ?r}. 0)"
      by (rule sum.If_cases) simp
    also have "{..<m} \<inter> {j. j < ?r} = {..<?r}" using r by auto
    finally show ?thesis by simp
  qed
  also have "(\<Sum>j<m. ?q) = int m * ?q" by simp
  finally have "rangeStart m m = int m * ?q + int ?r" by (simp add: rangeStart_def)
  also have "int ?r = 16384 mod int m" by (simp add: zmod_int)
  finally show ?thesis by simp
qed

lemma ranges_cover:
  "(\<Union>i<n. {rangeStart m i ..< rangeStart m (Suc i)}) = {0 ..< rangeStart m n}"
proof (induction n)
  case 0
  then show ?case by (simp add: rangeStart_def)
next
  case (Suc n)
  have "0 \<le> rangeStart m n" using rangeStart_mono [of 0 n m] by (simp add: rangeStart_def)
  moreover have "rangeStart m n \<le> rangeStart m (Suc n)" by (rule rangeStart_mono) simp
  ultimately have "{0 ..< rangeStart m n} \<union> {rangeStart m n ..< rangeStart m (Suc n)} = {0 ..< rangeStart m (Suc n)}"
    by auto
  with Suc show ?case by (simp add: lessThan_Suc Un_commute)
qed

lemma set_upto_less: "set [a .. b - 1] = {a ..< b}" for a b :: int
  by auto

text \<open>
  Claim C6: when create assigns slots to \<open>m \<ge> 1\<close> primaries and every
  \<open>ADDSLOTS\<close> succeeds, primary \<open>i\<close> (from 0, in input order) is sent the
  contiguous range that starts where the range of primary \<open>i - 1\<close> ends, of size
  \<open>16384 div m\<close> plus one exactly when \<open>i < 16384 mod m\<close>; the \<open>m\<close> ranges are
  pairwise disjoint and together are the slots from 0 to 16383.
\<close>

theorem create_slot_ranges:
  assumes "masters \<noteq> []"
    and "assignSlots addSlotsErr masters = Some (cmds, None)"
  shows "length cmds = length masters
       \<and> (\<forall>i<length masters. cmds ! i =
            (masters ! i,
             [rangeStart (length masters) i .. rangeStart (length masters) i + rangeSize (length masters) i - 1]))
       \<and> (\<forall>i<length masters. \<forall>j<length masters. i \<noteq> j \<longrightarrow> set (snd (cmds ! i)) \<inter> set (snd (cmds ! j)) = {})
       \<and> (\<Union>i<length masters. set (snd (cmds ! i))) = {0 ..< 16384}"
proof -
  let ?m = "length masters"
  from assms(1) have m: "0 < ?m" by simp
  from assms have loop: "assignSlotsLoop addSlotsErr (16384 div int ?m) (16384 mod int ?m) 0 0 masters = (cmds, None)"
    by (simp add: assignSlots_def)
  from assignSlotsLoop_ok [OF loop]
  have len: "length cmds = ?m"
    and nth: "\<And>i. i < ?m \<Longrightarrow> cmds ! i =
            (masters ! i, [rangeStart ?m i .. rangeStart ?m i + rangeSize ?m i - 1])"
    by (simp_all add: sizeAt_rangeSize rangeStart_def)
  have sets: "\<And>i. i < ?m \<Longrightarrow> set (snd (cmds ! i)) = {rangeStart ?m i ..< rangeStart ?m (Suc i)}"
    using nth by (simp add: set_upto_less rangeStart_Suc del: set_upto)
  have disj: "\<And>i j. i < ?m \<Longrightarrow> j < ?m \<Longrightarrow> i < j \<Longrightarrow> set (snd (cmds ! i)) \<inter> set (snd (cmds ! j)) = {}"
  proof -
    fix i j assume "i < ?m" "j < ?m" "i < j"
    then have "rangeStart ?m (Suc i) \<le> rangeStart ?m j" by (intro rangeStart_mono) simp
    with \<open>i < ?m\<close> \<open>j < ?m\<close> show "set (snd (cmds ! i)) \<inter> set (snd (cmds ! j)) = {}"
      by (auto simp: sets)
  qed
  have disj2: "\<forall>i<?m. \<forall>j<?m. i \<noteq> j \<longrightarrow> set (snd (cmds ! i)) \<inter> set (snd (cmds ! j)) = {}"
  proof (intro allI impI)
    fix i j assume "i < ?m" "j < ?m" "i \<noteq> j"
    then consider "i < j" | "j < i" by linarith
    then show "set (snd (cmds ! i)) \<inter> set (snd (cmds ! j)) = {}"
      using disj [of i j] disj [of j i] \<open>i < ?m\<close> \<open>j < ?m\<close> by (cases) auto
  qed
  have "(\<Union>i<?m. set (snd (cmds ! i))) = (\<Union>i<?m. {rangeStart ?m i ..< rangeStart ?m (Suc i)})"
    using sets by auto
  also have "\<dots> = {0 ..< rangeStart ?m ?m}" by (rule ranges_cover)
  finally have cover: "(\<Union>i<?m. set (snd (cmds ! i))) = {0 ..< 16384}"
    by (simp add: rangeStart_total [OF m])
  from len nth disj2 cover show ?thesis by blast
qed

lemma threeMasters_assigned: "assignSlots (\<lambda>masterNode slotArgs. None) threeMasters = Some (threeRanges, None)"
  by (simp add: assignSlots_def threeMasters_def threeRanges_def del: upto_rec_numeral)

text \<open>Claim C6 on three primaries: the ranges are 0-5461, 5462-10922 and 10923-16383.\<close>

theorem create_slot_ranges_witness:
  "threeMasters \<noteq> []
   \<and> assignSlots (\<lambda>masterNode slotArgs. None) threeMasters = Some (threeRanges, None)
   \<and> length threeRanges = length threeMasters
   \<and> threeRanges ! 1 = (threeMasters ! 1, [rangeStart 3 1 .. rangeStart 3 1 + rangeSize 3 1 - 1])
   \<and> set (snd (threeRanges ! 0)) \<inter> set (snd (threeRanges ! 1)) = {}
   \<and> (\<Union>i<length threeMasters. set (snd (threeRanges ! i))) = {0 ..< 16384}"
proof -
  have ne: "threeMasters \<noteq> []" by (simp add: threeMasters_def)
  have len: "length threeMasters = 3" by (simp add: threeMasters_def)
  note t = create_slot_ranges [OF ne threeMasters_assigned]
  from t have a: "length threeRanges = length threeMasters" by blast
  from t have "\<forall>i<length threeMasters. threeRanges ! i =
      (threeMasters ! i,
       [rangeStart (length threeMasters) i .. rangeStart (length threeMasters) i + rangeSize (length threeMasters) i - 1])"
    by blast
  then have b: "threeRanges ! 1 = (threeMasters ! 1, [rangeStart 3 1 .. rangeStart 3 1 + rangeSize 3 1 - 1])"
    unfolding len by (rule allE [of _ 1]) simp
  from t have "\<forall>i<length threeMasters. \<forall>j<length threeMasters. i \<noteq> j \<longrightarrow>
      set (snd (threeRanges ! i)) \<inter> set (snd (threeRanges ! j)) = {}"
    by blast
  then have c: "set (snd (threeRanges ! 0)) \<inter> set (snd (threeRanges ! 1)) = {}"
    unfolding len by (metis zero_less_numeral one_less_numeral_iff semiring_norm(77) zero_neq_one)
  from t have d: "(\<Union>i<length threeMasters. set (snd (threeRanges ! i))) = {0 ..< 16384}" by blast
  from ne threeMasters_assigned a b c d show ?thesis by blast
qed

section \<open>The rebalance plan\<close>

lemma maxDeviationLoop_ge_acc: "acc \<le> maxDeviationLoop ideal ms acc"
proof (induction ms arbitrary: acc)
  case Nil
  then show ?case by simp
next
  case (Cons m ms)
  let ?d = "if int (length (mn_Slots m)) - ideal < 0 then - (int (length (mn_Slots m)) - ideal) else int (length (mn_Slots m)) - ideal"
  have "acc \<le> (if ?d > acc then ?d else acc)" by simp
  also have "\<dots> \<le> maxDeviationLoop ideal ms (if ?d > acc then ?d else acc)" by (rule Cons.IH)
  finally show ?case by (simp add: Let_def)
qed

lemma maxDeviationLoop_ge_elem: "m \<in> set ms \<Longrightarrow> deviation ideal m \<le> maxDeviationLoop ideal ms acc"
proof (induction ms arbitrary: acc)
  case Nil
  then show ?case by simp
next
  case (Cons a ms)
  let ?d = "if int (length (mn_Slots a)) - ideal < 0 then - (int (length (mn_Slots a)) - ideal) else int (length (mn_Slots a)) - ideal"
  have d: "?d = deviation ideal a" by (simp add: deviation_def slotCount_def)
  show ?case
  proof (cases "m = a")
    case True
    have "deviation ideal a \<le> (if ?d > acc then ?d else acc)" using d by simp
    also have "\<dots> \<le> maxDeviationLoop ideal ms (if ?d > acc then ?d else acc)"
      by (rule maxDeviationLoop_ge_acc)
    finally show ?thesis using True by (simp add: Let_def)
  next
    case False
    with Cons.prems have "m \<in> set ms" by simp
    from Cons.IH [OF this] show ?thesis by (simp add: Let_def)
  qed
qed

lemma maxDeviationLoop_le:
  "acc \<le> B \<Longrightarrow> (\<forall>m\<in>set ms. deviation ideal m \<le> B) \<Longrightarrow> maxDeviationLoop ideal ms acc \<le> B"
proof (induction ms arbitrary: acc)
  case Nil
  then show ?case by simp
next
  case (Cons a ms)
  let ?d = "if int (length (mn_Slots a)) - ideal < 0 then - (int (length (mn_Slots a)) - ideal) else int (length (mn_Slots a)) - ideal"
  have d: "?d = deviation ideal a" by (simp add: deviation_def slotCount_def)
  have "(if ?d > acc then ?d else acc) \<le> B" using Cons.prems d by simp
  moreover have "\<forall>m\<in>set ms. deviation ideal m \<le> B" using Cons.prems by simp
  ultimately have "maxDeviationLoop ideal ms (if ?d > acc then ?d else acc) \<le> B" by (rule Cons.IH)
  then show ?case by (simp add: Let_def)
qed

lemma maxDeviation_mono:
  assumes "length A = length B"
    and "\<forall>a\<in>set A. \<exists>b\<in>set B. deviation (idealSlots B) a \<le> deviation (idealSlots B) b"
  shows "maxDeviation A \<le> maxDeviation B"
proof (cases "A = []")
  case True
  with assms(1) show ?thesis by (simp add: maxDeviation_def)
next
  case False
  with assms(1) have B: "B \<noteq> []" by auto
  have ideal: "idealSlots A = idealSlots B" using assms(1) by (simp add: idealSlots_def)
  have "maxDeviationLoop (idealSlots B) A 0 \<le> maxDeviationLoop (idealSlots B) B 0"
  proof (rule maxDeviationLoop_le)
    show "0 \<le> maxDeviationLoop (idealSlots B) B 0" by (rule maxDeviationLoop_ge_acc)
    show "\<forall>m\<in>set A. deviation (idealSlots B) m \<le> maxDeviationLoop (idealSlots B) B 0"
    proof
      fix a assume "a \<in> set A"
      with assms(2) obtain b where b: "b \<in> set B" "deviation (idealSlots B) a \<le> deviation (idealSlots B) b"
        by blast
      from maxDeviationLoop_ge_elem [OF b(1), of "idealSlots B" 0] b(2)
      show "deviation (idealSlots B) a \<le> maxDeviationLoop (idealSlots B) B 0" by linarith
    qed
  qed
  with False B ideal show ?thesis by (simp add: maxDeviation_def)
qed

lemma applyItem_map: "applyItem item ms = map (applyItemTo item) ms"
  by (simp add: applyItem_def applyItemTo_def)

lemma applyPlan_Nil: "applyPlan [] ms = ms"
  by (simp add: applyPlan_def)

lemma applyPlan_Cons: "applyPlan (item # plan) ms = applyPlan plan (applyItem item ms)"
  by (simp add: applyPlan_def)

lemma applyPlan_append: "applyPlan (p @ q) ms = applyPlan q (applyPlan p ms)"
  by (simp add: applyPlan_def)

lemma applyPlan_map: "applyPlan plan ms = map (\<lambda>m. fold applyItemTo plan m) ms"
proof (induction plan arbitrary: ms)
  case Nil
  then show ?case by (simp add: applyPlan_Nil)
next
  case (Cons item plan)
  then show ?case by (simp add: applyPlan_Cons applyItem_map)
qed

lemma mset_fold_remove1: "mset (fold remove1 xs ys) = mset ys - mset xs"
  by (induction xs arbitrary: ys) auto

lemma mn_ID_applyItemTo: "mn_ID (applyItemTo item m) = mn_ID m"
  by (simp add: applyItemTo_def)

lemma sameSlots_refl: "sameSlots A A"
  by (simp add: sameSlots_def)

lemma sameSlots_trans: "sameSlots A B \<Longrightarrow> sameSlots B C \<Longrightarrow> sameSlots A C"
  by (simp add: sameSlots_def)

lemma sameSlots_length: "sameSlots A B \<Longrightarrow> length A = length B"
  unfolding sameSlots_def using map_eq_imp_length_eq by blast

lemma sameSlots_nth:
  assumes "sameSlots A B" "i < length A"
  shows "mn_ID (A ! i) = mn_ID (B ! i)" "mset (mn_Slots (A ! i)) = mset (mn_Slots (B ! i))"
proof -
  from assms have len: "i < length B" using sameSlots_length by fastforce
  from assms(1) have "map mn_ID A ! i = map mn_ID B ! i"
    and "map (\<lambda>m. mset (mn_Slots m)) A ! i = map (\<lambda>m. mset (mn_Slots m)) B ! i"
    by (simp_all add: sameSlots_def)
  with assms(2) len show "mn_ID (A ! i) = mn_ID (B ! i)" "mset (mn_Slots (A ! i)) = mset (mn_Slots (B ! i))"
    by simp_all
qed

lemma sameSlotsI:
  assumes "length A = length B"
    and "\<And>i. i < length A \<Longrightarrow> mn_ID (A ! i) = mn_ID (B ! i) \<and> mset (mn_Slots (A ! i)) = mset (mn_Slots (B ! i))"
  shows "sameSlots A B"
  unfolding sameSlots_def using assms by (auto intro!: nth_equalityI)

lemma sameSlots_applyItem:
  assumes "sameSlots A B"
  shows "sameSlots (applyItem item A) (applyItem item B)"
proof (rule sameSlotsI)
  show "length (applyItem item A) = length (applyItem item B)"
    using sameSlots_length [OF assms] by (simp add: applyItem_map)
next
  fix i assume "i < length (applyItem item A)"
  then have i: "i < length A" by (simp add: applyItem_map)
  then have iB: "i < length B" using sameSlots_length [OF assms] by simp
  from sameSlots_nth [OF assms i] i iB
  show "mn_ID (applyItem item A ! i) = mn_ID (applyItem item B ! i) \<and>
        mset (mn_Slots (applyItem item A ! i)) = mset (mn_Slots (applyItem item B ! i))"
    by (simp add: applyItem_map applyItemTo_def mset_fold_remove1)
qed

lemma sameSlots_applyPlan:
  "sameSlots A B \<Longrightarrow> sameSlots (applyPlan plan A) (applyPlan plan B)"
proof (induction plan arbitrary: A B)
  case Nil
  then show ?case by (simp add: applyPlan_Nil)
next
  case (Cons item plan)
  from Cons.IH [OF sameSlots_applyItem [OF Cons.prems]] show ?case
    by (simp add: applyPlan_Cons)
qed

lemma sameSlots_slotCount:
  assumes "sameSlots A B" "i < length A"
  shows "slotCount (A ! i) = slotCount (B ! i)"
proof -
  from sameSlots_nth(2) [OF assms] have "size (mset (mn_Slots (A ! i))) = size (mset (mn_Slots (B ! i)))"
    by simp
  then show ?thesis by (simp add: slotCount_def)
qed

lemma sum_list_update_int:
  "k < length xs \<Longrightarrow> sum_list (xs[k := x]) = sum_list xs + x - xs ! k" for xs :: "int list"
proof (induction xs arbitrary: k)
  case Nil
  then show ?case by simp
next
  case (Cons a xs)
  then show ?case by (cases k) auto
qed

lemma moveBetween_length: "length (moveBetween d r xfer M) = length M"
  by (simp add: moveBetween_def Let_def)

lemma moveBetween_ids: "map mn_ID (moveBetween d r xfer M) = map mn_ID M"
proof (rule nth_equalityI)
  show "length (map mn_ID (moveBetween d r xfer M)) = length (map mn_ID M)"
    by (simp add: moveBetween_length)
next
  fix i assume "i < length (map mn_ID (moveBetween d r xfer M))"
  then have i: "i < length M" by (simp add: moveBetween_length)
  then show "map mn_ID (moveBetween d r xfer M) ! i = map mn_ID M ! i"
    by (cases "i = r"; cases "i = d") (simp_all add: moveBetween_def Let_def nth_list_update)
qed

lemma moveBetween_donor:
  "d < length M \<Longrightarrow> r < length M \<Longrightarrow> d \<noteq> r \<Longrightarrow>
     mn_Slots (moveBetween d r xfer M ! d) = take (length (mn_Slots (M ! d)) - length xfer) (mn_Slots (M ! d))"
  by (simp add: moveBetween_def Let_def)

lemma moveBetween_receiver:
  "d < length M \<Longrightarrow> r < length M \<Longrightarrow> d \<noteq> r \<Longrightarrow>
     mn_Slots (moveBetween d r xfer M ! r) = mn_Slots (M ! r) @ xfer"
  by (simp add: moveBetween_def Let_def)

lemma moveBetween_other:
  "j \<noteq> d \<Longrightarrow> j \<noteq> r \<Longrightarrow> moveBetween d r xfer M ! j = M ! j"
  by (simp add: moveBetween_def Let_def)

text \<open>What one pairing does to the counts.\<close>

lemma pairing_facts:
  assumes k: "0 < slotsToMoveOf ideal (M ! d) (M ! r)"
  shows "d \<noteq> r"
    and "slotsToMoveOf ideal (M ! d) (M ! r) \<le> slotCount (M ! d) - ideal"
    and "slotsToMoveOf ideal (M ! d) (M ! r) \<le> ideal - slotCount (M ! r)"
    and "length (slotsToTransferOf (M ! d) (slotsToMoveOf ideal (M ! d) (M ! r))) = nat (slotsToMoveOf ideal (M ! d) (M ! r))"
proof -
  let ?k = "slotsToMoveOf ideal (M ! d) (M ! r)"
  have kv: "?k = (if ideal - slotCount (M ! r) < slotCount (M ! d) - ideal
                  then ideal - slotCount (M ! r) else slotCount (M ! d) - ideal)"
    by (simp add: slotsToMoveOf_def Let_def slotCount_def)
  from k kv have ex: "0 < slotCount (M ! d) - ideal" and de: "0 < ideal - slotCount (M ! r)"
    by (auto split: if_splits)
  from ex de show "d \<noteq> r" by auto
  from kv show "?k \<le> slotCount (M ! d) - ideal" by simp
  from kv show "?k \<le> ideal - slotCount (M ! r)" by simp
  have "0 \<le> slotCount (M ! r)" by (simp add: slotCount_def)
  with de have "0 < ideal" by linarith
  with kv ex de have "nat ?k \<le> length (mn_Slots (M ! d))"
    by (auto simp: slotCount_def)
  then show "length (slotsToTransferOf (M ! d) ?k) = nat ?k"
    by (simp add: slotsToTransferOf_def)
qed

lemma pairing_counts:
  assumes d: "d < length M" and r: "r < length M"
    and k: "0 < slotsToMoveOf ideal (M ! d) (M ! r)"
  defines "M2 \<equiv> moveBetween d r (slotsToTransferOf (M ! d) (slotsToMoveOf ideal (M ! d) (M ! r))) M"
  shows "slotCount (M2 ! d) = slotCount (M ! d) - slotsToMoveOf ideal (M ! d) (M ! r)"
    and "slotCount (M2 ! r) = slotCount (M ! r) + slotsToMoveOf ideal (M ! d) (M ! r)"
proof -
  let ?k = "slotsToMoveOf ideal (M ! d) (M ! r)"
  note f = pairing_facts [OF k]
  have "0 \<le> slotCount (M ! r)" by (simp add: slotCount_def)
  with f(3) k have le: "nat ?k \<le> length (mn_Slots (M ! d))"
    using f(2) by (simp add: slotCount_def)
  show "slotCount (M2 ! d) = slotCount (M ! d) - ?k"
    using le k by (simp add: M2_def slotCount_def moveBetween_donor [OF d r f(1)] f(4))
  show "slotCount (M2 ! r) = slotCount (M ! r) + ?k"
    using k by (simp add: M2_def slotCount_def moveBetween_receiver [OF d r f(1)] f(4))
qed

lemma pairing_deviation:
  assumes d: "d < length M" and r: "r < length M"
    and k: "0 < slotsToMoveOf ideal (M ! d) (M ! r)"
  shows "deviation ideal (moveBetween d r (slotsToTransferOf (M ! d) (slotsToMoveOf ideal (M ! d) (M ! r))) M ! j)
           \<le> deviation ideal (M ! j)"
proof -
  note f = pairing_facts [OF k]
  note c = pairing_counts [OF d r k]
  consider "j = d" | "j = r" | "j \<noteq> d" "j \<noteq> r" by blast
  then show ?thesis
  proof cases
    case 1
    with c(1) f(2) k show ?thesis by (simp add: deviation_def)
  next
    case 2
    with c(2) f(3) k show ?thesis by (simp add: deviation_def)
  next
    case 3
    then show ?thesis by (simp add: moveBetween_other)
  qed
qed

lemma pairing_excess:
  assumes d: "d < length M" and r: "r < length M"
    and k: "0 < slotsToMoveOf ideal (M ! d) (M ! r)"
  shows "(\<Sum>m\<leftarrow>moveBetween d r (slotsToTransferOf (M ! d) (slotsToMoveOf ideal (M ! d) (M ! r))) M. excess ideal m)
           = (\<Sum>m\<leftarrow>M. excess ideal m) - slotsToMoveOf ideal (M ! d) (M ! r)"
proof -
  let ?k = "slotsToMoveOf ideal (M ! d) (M ! r)"
  let ?x = "slotsToTransferOf (M ! d) ?k"
  let ?M2 = "moveBetween d r ?x M"
  note f = pairing_facts [OF k]
  note c = pairing_counts [OF d r k]
  have eq: "map (excess ideal) ?M2 = (map (excess ideal) M)[d := excess ideal (?M2 ! d), r := excess ideal (?M2 ! r)]"
  proof (rule nth_equalityI)
    show "length (map (excess ideal) ?M2) = length ((map (excess ideal) M)[d := excess ideal (?M2 ! d), r := excess ideal (?M2 ! r)])"
      by (simp add: moveBetween_length)
  next
    fix i assume "i < length (map (excess ideal) ?M2)"
    then have i: "i < length M" by (simp add: moveBetween_length)
    then show "map (excess ideal) ?M2 ! i = (map (excess ideal) M)[d := excess ideal (?M2 ! d), r := excess ideal (?M2 ! r)] ! i"
      by (cases "i = r"; cases "i = d") (simp_all add: moveBetween_length nth_list_update moveBetween_other)
  qed
  have ed: "excess ideal (?M2 ! d) = excess ideal (M ! d) - ?k"
    using c(1) f(2) k by (simp add: excess_def)
  have er: "excess ideal (?M2 ! r) = excess ideal (M ! r)"
    using c(2) f(3) k by (simp add: excess_def)
  have "sum_list (map (excess ideal) ?M2)
          = sum_list ((map (excess ideal) M)[d := excess ideal (?M2 ! d)]) + excess ideal (?M2 ! r)
              - (map (excess ideal) M)[d := excess ideal (?M2 ! d)] ! r"
    unfolding eq using r by (simp add: sum_list_update_int)
  also have "(map (excess ideal) M)[d := excess ideal (?M2 ! d)] ! r = excess ideal (M ! r)"
    using r f(1) by simp
  also have "sum_list ((map (excess ideal) M)[d := excess ideal (?M2 ! d)])
          = sum_list (map (excess ideal) M) + excess ideal (?M2 ! d) - excess ideal (M ! d)"
    using d by (simp add: sum_list_update_int)
  finally show ?thesis using ed er by simp
qed

lemma pairing_simulates:
  assumes d: "d < length M" and r: "r < length M"
    and k: "0 < slotsToMoveOf ideal (M ! d) (M ! r)"
    and dist: "distinct (map mn_ID M)"
    and fr: "rp_From item = mn_ID (M ! d)" and tt: "rp_To item = mn_ID (M ! r)"
    and slots: "rp_Slots item = slotsToTransferOf (M ! d) (slotsToMoveOf ideal (M ! d) (M ! r))"
  shows "sameSlots (applyItem item M) (moveBetween d r (rp_Slots item) M)"
proof (rule sameSlotsI)
  show "length (applyItem item M) = length (moveBetween d r (rp_Slots item) M)"
    by (simp add: applyItem_map moveBetween_length)
next
  fix i assume "i < length (applyItem item M)"
  then have i: "i < length M" by (simp add: applyItem_map)
  let ?k = "slotsToMoveOf ideal (M ! d) (M ! r)"
  note f = pairing_facts [OF k]
  have ids: "\<And>a b. a < length M \<Longrightarrow> b < length M \<Longrightarrow> mn_ID (M ! a) = mn_ID (M ! b) \<Longrightarrow> a = b"
    using dist by (metis distinct_conv_nth length_map nth_map)
  have idM2: "mn_ID (moveBetween d r (rp_Slots item) M ! i) = mn_ID (M ! i)"
    using moveBetween_ids [of d r "rp_Slots item" M] i
    by (metis length_map moveBetween_length nth_map)
  consider "i = d" | "i = r" | "i \<noteq> d" "i \<noteq> r" by blast
  then show "mn_ID (applyItem item M ! i) = mn_ID (moveBetween d r (rp_Slots item) M ! i) \<and>
        mset (mn_Slots (applyItem item M ! i)) = mset (mn_Slots (moveBetween d r (rp_Slots item) M ! i))"
  proof cases
    case 1
    let ?s = "mn_Slots (M ! d)"
    have len: "length (rp_Slots item) = nat ?k" using f(4) slots by simp
    have x: "rp_Slots item = rev (drop (length ?s - nat ?k) ?s)"
      by (simp add: slots slotsToTransferOf_def take_rev)
    have "mset ?s = mset (take (length ?s - nat ?k) ?s) + mset (drop (length ?s - nat ?k) ?s)"
      by (metis append_take_drop_id mset_append)
    then have "mset ?s - mset (rp_Slots item) = mset (take (length ?s - nat ?k) ?s)"
      by (simp add: x)
    with 1 i fr idM2 len show ?thesis
      by (simp add: applyItem_map applyItemTo_def mn_ID_applyItemTo mset_fold_remove1
          moveBetween_donor [OF d r f(1)])
  next
    case 2
    have "mn_ID (M ! r) \<noteq> mn_ID (M ! d)" using ids [OF r d] f(1) by auto
    with 2 i fr tt idM2 show ?thesis
      by (simp add: applyItem_map applyItemTo_def moveBetween_receiver [OF d r f(1)])
  next
    case 3
    have "mn_ID (M ! i) \<noteq> mn_ID (M ! d)" using ids [OF i d] 3 by auto
    moreover have "mn_ID (M ! i) \<noteq> mn_ID (M ! r)" using ids [OF i r] 3 by auto
    ultimately show ?thesis using 3 i fr tt
      by (simp add: applyItem_map applyItemTo_def moveBetween_other)
  qed
qed

lemma planLoop_total:
  assumes "\<forall>d\<in>set D. d < length M" and "\<forall>r\<in>set R. r < length M"
  shows "planLoop ideal D R di ri M P \<noteq> None"
  using assms
proof (induction ideal D R di ri M P rule: planLoop.induct)
  case (1 ideal D R di ri M P)
  show ?case
  proof (cases "di < length D \<and> ri < length R")
    case False
    then show ?thesis by (subst planLoop.simps) auto
  next
    case idx: True
    then have rng: "D ! di < length M \<and> R ! ri < length M"
      using "1.prems" by simp
    show ?thesis
    proof (cases "slotsToMoveOf ideal (M ! (D ! di)) (M ! (R ! ri)) \<le> 0")
      case True
      with idx rng show ?thesis by (subst planLoop.simps) (simp add: Let_def)
    next
      case False
      have "planLoop ideal D R
              (if int (length (mn_Slots (moveBetween (D ! di) (R ! ri)
                   (slotsToTransferOf (M ! (D ! di)) (slotsToMoveOf ideal (M ! (D ! di)) (M ! (R ! ri)))) M ! (D ! di)))) \<le> ideal
               then di + 1 else di)
              (if ideal \<le> int (length (mn_Slots (moveBetween (D ! di) (R ! ri)
                   (slotsToTransferOf (M ! (D ! di)) (slotsToMoveOf ideal (M ! (D ! di)) (M ! (R ! ri)))) M ! (R ! ri))))
               then ri + 1 else ri)
              (moveBetween (D ! di) (R ! ri)
                   (slotsToTransferOf (M ! (D ! di)) (slotsToMoveOf ideal (M ! (D ! di)) (M ! (R ! ri)))) M)
              (P @ [\<lparr> rp_From = mn_ID (M ! (D ! di)), rp_To = mn_ID (M ! (R ! ri)),
                      rp_Slots = slotsToTransferOf (M ! (D ! di)) (slotsToMoveOf ideal (M ! (D ! di)) (M ! (R ! ri))),
                      rp_SlotCount = int (length (slotsToTransferOf (M ! (D ! di)) (slotsToMoveOf ideal (M ! (D ! di)) (M ! (R ! ri))))) \<rparr>])
            \<noteq> None"
        using "1.prems" by (intro "1.IH" [OF idx refl refl rng refl False refl refl refl]) (simp_all add: moveBetween_length)
      with idx rng False show ?thesis by (subst planLoop.simps) (simp add: Let_def)
    qed
  qed
qed

lemma totalMoved_Cons: "totalMoved (item # plan) = int (length (rp_Slots item)) + totalMoved plan"
  by (simp add: totalMoved_def)

lemma planLoop_sound:
  assumes "planLoop ideal D R di ri M P = Some (P', M')" and "distinct (map mn_ID M)"
  shows "\<exists>Q. P' = P @ Q \<and> sameSlots (applyPlan Q M) M'
           \<and> (\<forall>j. deviation ideal (M' ! j) \<le> deviation ideal (M ! j))
           \<and> totalMoved Q + (\<Sum>m\<leftarrow>M'. excess ideal m) = (\<Sum>m\<leftarrow>M. excess ideal m)"
  using assms
proof (induction ideal D R di ri M P rule: planLoop.induct)
  case (1 ideal D R di ri M P)
  have stop: "\<exists>Q. P = P @ Q \<and> sameSlots (applyPlan Q M) M
           \<and> (\<forall>j. deviation ideal (M ! j) \<le> deviation ideal (M ! j))
           \<and> totalMoved Q + (\<Sum>m\<leftarrow>M. excess ideal m) = (\<Sum>m\<leftarrow>M. excess ideal m)"
    by (rule exI [of _ "[]"]) (simp add: applyPlan_Nil sameSlots_refl totalMoved_def)
  show ?case
  proof (cases "di < length D \<and> ri < length R")
    case False
    with "1.prems"(1) have "P' = P" "M' = M" by (subst (asm) planLoop.simps, auto)+
    with stop show ?thesis by simp
  next
    case idx: True
    let ?d = "D ! di" and ?r = "R ! ri"
    show ?thesis
    proof (cases "?d < length M \<and> ?r < length M")
      case False
      with idx "1.prems"(1) show ?thesis by (subst (asm) planLoop.simps) (auto simp: Let_def)
    next
      case rng: True
      let ?k = "slotsToMoveOf ideal (M ! ?d) (M ! ?r)"
      show ?thesis
      proof (cases "?k \<le> 0")
        case True
        with idx rng "1.prems"(1) have "P' = P" "M' = M"
          by (subst (asm) planLoop.simps, simp add: Let_def)+
        with stop show ?thesis by simp
      next
        case False
        then have k: "0 < ?k" by simp
        let ?x = "slotsToTransferOf (M ! ?d) ?k"
        let ?item = "\<lparr> rp_From = mn_ID (M ! ?d), rp_To = mn_ID (M ! ?r), rp_Slots = ?x,
                        rp_SlotCount = int (length ?x) \<rparr>"
        let ?M2 = "moveBetween ?d ?r ?x M"
        let ?di = "if int (length (mn_Slots (?M2 ! ?d))) \<le> ideal then di + 1 else di"
        let ?ri = "if ideal \<le> int (length (mn_Slots (?M2 ! ?r))) then ri + 1 else ri"
        from idx rng False "1.prems"(1)
        have rec: "planLoop ideal D R ?di ?ri ?M2 (P @ [?item]) = Some (P', M')"
          by (subst (asm) planLoop.simps) (simp add: Let_def)
        have dist2: "distinct (map mn_ID ?M2)"
          using "1.prems"(2) by (simp add: moveBetween_ids)
        from "1.IH" [OF idx refl refl rng refl False refl refl refl rec dist2]
        obtain Q where Q: "P' = (P @ [?item]) @ Q" "sameSlots (applyPlan Q ?M2) M'"
          "\<forall>j. deviation ideal (M' ! j) \<le> deviation ideal (?M2 ! j)"
          "totalMoved Q + (\<Sum>m\<leftarrow>M'. excess ideal m) = (\<Sum>m\<leftarrow>?M2. excess ideal m)"
          by blast
        have d: "?d < length M" and r: "?r < length M" using rng by simp_all
        have sim: "sameSlots (applyItem ?item M) ?M2"
          using pairing_simulates [OF d r k "1.prems"(2), of ?item] by simp
        have s1: "sameSlots (applyPlan (?item # Q) M) M'"
          using sameSlots_trans [OF sameSlots_applyPlan [OF sim, of Q] Q(2)]
          by (simp add: applyPlan_Cons)
        have s2: "\<forall>j. deviation ideal (M' ! j) \<le> deviation ideal (M ! j)"
        proof
          fix j
          have "deviation ideal (M' ! j) \<le> deviation ideal (?M2 ! j)" using Q(3) by simp
          also have "\<dots> \<le> deviation ideal (M ! j)" by (rule pairing_deviation [OF d r k])
          finally show "deviation ideal (M' ! j) \<le> deviation ideal (M ! j)" .
        qed
        have len: "int (length ?x) = ?k"
          using pairing_facts(4) [OF k] k by simp
        have s3: "totalMoved (?item # Q) + (\<Sum>m\<leftarrow>M'. excess ideal m) = (\<Sum>m\<leftarrow>M. excess ideal m)"
          using Q(4) pairing_excess [OF d r k] len by (simp add: totalMoved_Cons)
        from Q(1) s1 s2 s3 show ?thesis
          by (intro exI [of _ "?item # Q"]) simp
      qed
    qed
  qed
qed

lemma donorsOf_range: "\<forall>d\<in>set (donorsOf ideal M). d < length M"
  by (simp add: donorsOf_def)

lemma receiversOf_range: "\<forall>r\<in>set (receiversOf ideal M). r < length M"
  by (simp add: receiversOf_def)

lemma excess_nonneg: "0 \<le> (\<Sum>m\<leftarrow>M. excess ideal m)"
  by (rule sum_list_nonneg) (auto simp: excess_def)

lemma totalExcess_excess: "totalExcess M = (\<Sum>m\<leftarrow>M. excess (idealSlots M) m)"
  by (simp add: totalExcess_def excess_def slotCount_def)

lemma sum_list_perm:
  assumes "mset A = mset B"
  shows "(\<Sum>m\<leftarrow>A. f m) = (\<Sum>m\<leftarrow>B. (f m :: int))"
proof -
  have "sum_list (map f A) = sum_mset (mset (map f A))" by (simp only: sum_mset_sum_list)
  also have "mset (map f A) = mset (map f B)" using assms by simp
  also have "sum_mset (mset (map f B)) = sum_list (map f B)" by (simp only: sum_mset_sum_list)
  finally show ?thesis .
qed

lemma sortBySlotCount_perm: "mset (sortBySlotCount masters) = mset masters"
  by (simp add: sortBySlotCount_def)

lemma plan_of_loop:
  assumes dist: "distinct (map mn_ID masters)"
    and perm: "mset M0 = mset masters"
    and loop: "planLoop (idealSlots masters) D R 0 0 M0 [] = Some (plan, Mf)"
  shows "maxDeviation (applyPlan plan masters) \<le> maxDeviation masters
       \<and> totalMoved plan \<le> totalExcess masters"
proof -
  let ?I = "idealSlots masters"
  have len0: "length M0 = length masters" using perm by (rule mset_eq_length)
  have set0: "set M0 = set masters" using perm by (rule mset_eq_setD)
  have "mset (map mn_ID M0) = mset (map mn_ID masters)" using perm by (simp only: mset_map)
  from mset_eq_imp_distinct_iff [OF this] dist have dist0: "distinct (map mn_ID M0)" by simp
  from planLoop_sound [OF loop dist0]
  have sim: "sameSlots (applyPlan plan M0) Mf"
    and dev: "\<And>j. deviation ?I (Mf ! j) \<le> deviation ?I (M0 ! j)"
    and tot: "totalMoved plan + (\<Sum>m\<leftarrow>Mf. excess ?I m) = (\<Sum>m\<leftarrow>M0. excess ?I m)"
    by auto
  have lenA: "length (applyPlan plan M0) = length M0" by (simp add: applyPlan_map)
  have moved: "totalMoved plan \<le> totalExcess masters"
  proof -
    have "totalMoved plan \<le> (\<Sum>m\<leftarrow>M0. excess ?I m)"
      using tot excess_nonneg [of ?I Mf] by linarith
    also have "\<dots> = (\<Sum>m\<leftarrow>masters. excess ?I m)" using perm by (rule sum_list_perm)
    finally show ?thesis by (simp add: totalExcess_excess)
  qed
  have "maxDeviation (applyPlan plan masters) \<le> maxDeviation masters"
  proof (rule maxDeviation_mono)
    show "length (applyPlan plan masters) = length masters" by (simp add: applyPlan_map)
    show "\<forall>a\<in>set (applyPlan plan masters). \<exists>b\<in>set masters. deviation ?I a \<le> deviation ?I b"
    proof
      fix a assume "a \<in> set (applyPlan plan masters)"
      then have "a \<in> set (applyPlan plan M0)"
        using set0 by (simp add: applyPlan_map)
      then obtain i where i: "i < length M0" and a: "a = applyPlan plan M0 ! i"
        using lenA by (metis in_set_conv_nth)
      have "slotCount a = slotCount (Mf ! i)"
        using sameSlots_slotCount [OF sim] i lenA a by simp
      then have "deviation ?I a = deviation ?I (Mf ! i)" by (simp add: deviation_def)
      also have "\<dots> \<le> deviation ?I (M0 ! i)" by (rule dev)
      finally have "deviation ?I a \<le> deviation ?I (M0 ! i)" .
      moreover have "M0 ! i \<in> set masters" using i set0 nth_mem by blast
      ultimately show "\<exists>b\<in>set masters. deviation ?I a \<le> deviation ?I b" by blast
    qed
  qed
  with moved show ?thesis by simp
qed

text \<open>
  Claim C5: for every distribution of slots over primaries with distinct ids, the
  planner returns a plan; applying the plan does not increase the largest absolute
  deviation from the ideal count \<open>16384 div n\<close>, and the plan moves at most the sum
  over the primaries of \<open>max 0 (c - ideal)\<close> slots.  This holds whichever order the
  sort gives to primaries with equal counts.
\<close>

theorem rebalance_plan_improves:
  assumes "distinct (map mn_ID masters)" and "mset (srt masters) = mset masters"
  shows "\<exists>plan. generateRebalancePlan srt masters = Some plan
           \<and> maxDeviation (applyPlan plan masters) \<le> maxDeviation masters
           \<and> totalMoved plan \<le> totalExcess masters"
proof (cases "masters = []")
  case True
  then show ?thesis
    by (simp add: generateRebalancePlan_def applyPlan_Nil totalMoved_def totalExcess_def)
next
  case False
  let ?I = "idealSlots masters"
  let ?M0 = "srt masters"
  have "planLoop ?I (donorsOf ?I ?M0) (receiversOf ?I ?M0) 0 0 ?M0 [] \<noteq> None"
    by (rule planLoop_total [OF donorsOf_range receiversOf_range])
  then obtain plan Mf where
    loop: "planLoop ?I (donorsOf ?I ?M0) (receiversOf ?I ?M0) 0 0 ?M0 [] = Some (plan, Mf)"
    by auto
  from False loop have "generateRebalancePlan srt masters = Some plan"
    by (simp add: generateRebalancePlan_def Let_def)
  with plan_of_loop [OF assms loop] show ?thesis by simp
qed

text \<open>Claim C5 on two primaries that share all slots and a third without slots.\<close>

theorem rebalance_plan_improves_witness:
  "distinct (map mn_ID unevenMasters)
   \<and> mset (sortBySlotCount unevenMasters) = mset unevenMasters
   \<and> (\<exists>plan. generateRebalancePlan sortBySlotCount unevenMasters = Some plan
           \<and> maxDeviation (applyPlan plan unevenMasters) \<le> maxDeviation unevenMasters
           \<and> totalMoved plan \<le> totalExcess unevenMasters)"
proof -
  have d: "distinct (map mn_ID unevenMasters)"
    by (simp add: unevenMasters_def)
  have p: "mset (sortBySlotCount unevenMasters) = mset unevenMasters"
    by (rule sortBySlotCount_perm)
  from d p rebalance_plan_improves [of unevenMasters sortBySlotCount, OF d p] show ?thesis by simp
qed

end
